theory Spec2Isabelle
  imports Main "HOL-Library.Sublist"
begin

text \<open>
  The matchers of \<^verbatim>\<open>lepl.match\<close>. A matcher is an object that, called on a stream,
  returns a generator of pairs \<^verbatim>\<open>(results, stream)\<close>. A generator is modelled by the list
  of the items it yields, in order, together with the way it ends: a consumer that asks
  for the first items only never sees how the generator ends. Each class of matchers is
  a function from its constructor arguments to the function \<^verbatim>\<open>__call__\<close>. The loops of
  \<^verbatim>\<open>Repeat\<close> need not end; they run on fuel, one unit for each iteration, and a
  generator that has used up its fuel ends with \<open>OutOfFuel\<close>. Labels for tracing
  (\<^verbatim>\<open>tag\<close>) and logging (\<^verbatim>\<open>_debug\<close>, \<^verbatim>\<open>_warn\<close>) have no part in what is yielded and
  are left out.
\<close>

section \<open>Values, streams and generators\<close>

text \<open>
  The exceptions the modelled code can raise. \<open>UserError\<close> stands for any exception
  raised by a function supplied by the user (for example the one built by
  \<^verbatim>\<open>raise_error\<close>).
\<close>

datatype error = TypeError | ValueError | UnboundLocalError | AttributeError | UserError string

text \<open>
  Results are lists of dynamically typed values: one-token strings from \<^verbatim>\<open>Any\<close>,
  the text of a \<^verbatim>\<open>Literal\<close>, named pairs (tuples), lists, integers.
\<close>

datatype val = Str string | Num int | Tup "val list" | Lst "val list"

text \<open>
  Modelled from the spec: the stream classes of \<^verbatim>\<open>lepl.stream\<close> are not among the
  sources. By the stream contract a stream can be tested for emptiness, its prefix
  \<^verbatim>\<open>stream[0:n]\<close> compared with a literal, and advanced by \<^verbatim>\<open>stream[n:]\<close>, as a Python
  string can; it may carry an ambient \<^verbatim>\<open>core\<close>, which a plain string lacks
  (\<open>core = None\<close>). The tokens are characters, and the core is opaque.
\<close>

datatype core = Core nat

record stream =
  tokens :: string
  core :: "core option"

text \<open>\<^verbatim>\<open>stream[n:]\<close>\<close>

definition advance :: "nat \<Rightarrow> stream \<Rightarrow> stream" where
  "advance n s = s\<lparr>tokens := drop n (tokens s)\<rparr>"

type_synonym attempt = "val list \<times> stream"

text \<open>
  What a generator does once its attempts are used up: it stops (\<^verbatim>\<open>StopIteration\<close>),
  it raises, it has not finished within the fuel given to a loop that need not end, or
  it goes on, without end, yielding objects that are matchers and no attempts (see
  \<open>for_view\<close> below).
\<close>

datatype ending = Exhausted | Raised error | OutOfFuel | Matchers

text \<open>A generator: the items it still yields, in order, and how it ends.\<close>

type_synonym 'a gen = "'a list \<times> ending"

text \<open>
  What calling an object on a stream gives: the call raises; or it returns a generator;
  or it returns a matcher, which is no iterator (a function that builds a matcher, used
  where a matcher is expected, returns a matcher).
\<close>

datatype called = CallRaised error | Generator "attempt gen" | NotIterator

type_synonym matcher = "stream \<Rightarrow> called"

text \<open>
  Modelled from the spec: the decorator \<^verbatim>\<open>managed\<close> of \<^verbatim>\<open>lepl.resources\<close>, put on
  every \<^verbatim>\<open>__call__\<close>, is not among the sources. By the match protocol a matcher
  applied to a stream returns the lazy sequence of its attempts, and the resource
  management only sees to it that abandoned sequences are closed: what the decorated
  call returns yields and ends as what the undecorated call returns.
\<close>

definition managed :: "called \<Rightarrow> called" where
  "managed c = c"

declare managed_def [simp]

text \<open>
  \<^verbatim>\<open>g = m(stream)\<close> followed at once by \<^verbatim>\<open>next(g)\<close>: an exception of the call
  surfaces before the first item, and \<^verbatim>\<open>next\<close> of a matcher raises \<^verbatim>\<open>TypeError\<close>, a
  matcher being no iterator.
\<close>

fun next_view :: "called \<Rightarrow> attempt gen" where
  "next_view (CallRaised e) = ([], Raised e)"
| "next_view (Generator g) = g"
| "next_view NotIterator = ([], Raised TypeError)"

text \<open>
  \<^verbatim>\<open>for x in m(stream)\<close>. A matcher has \<^verbatim>\<open>__getitem__\<close>, so a \<^verbatim>\<open>for\<close> loop runs over
  it by index: \<^verbatim>\<open>m[0]\<close>, \<^verbatim>\<open>m[1]\<close>, ... are repetitions of \<^verbatim>\<open>m\<close>, matchers again, and
  no index is refused.
\<close>

fun for_view :: "called \<Rightarrow> attempt gen" where
  "for_view (CallRaised e) = ([], Raised e)"
| "for_view (Generator g) = g"
| "for_view NotIterator = ([], Matchers)"

text \<open>
  Each item is unpacked into \<^verbatim>\<open>(results, stream)\<close>: unpacking a matcher, which has more
  than two items, raises \<^verbatim>\<open>ValueError\<close>.
\<close>

fun unpack :: "attempt gen \<Rightarrow> attempt gen" where
  "unpack (xs, e) = (xs, if e = Matchers then Raised ValueError else e)"

text \<open>\<^verbatim>\<open>for (results, stream) in m(stream)\<close>\<close>

definition iterate :: "called \<Rightarrow> attempt gen" where
  "iterate c = unpack (for_view c)"

text \<open>\<^verbatim>\<open>g = m(stream)\<close> followed by \<^verbatim>\<open>(value, stream) = next(g)\<close>\<close>

definition pull :: "called \<Rightarrow> attempt gen" where
  "pull c = unpack (next_view c)"

text \<open>\<^verbatim>\<open>yield x\<close> followed by the rest of the generator's body.\<close>

fun yield :: "'a \<Rightarrow> 'a gen \<Rightarrow> 'a gen" where
  "yield x (xs, e) = (x # xs, e)"

text \<open>Run \<open>g\<close>; when it stops normally go on with \<open>h\<close>, otherwise end as \<open>g\<close> ends.\<close>

fun gen_then :: "'a gen \<Rightarrow> 'a gen \<Rightarrow> 'a gen" where
  "gen_then (xs, e) h = (if e = Exhausted then (xs @ fst h, snd h) else (xs, e))"

abbreviation attempts :: "called \<Rightarrow> attempt list" where
  "attempts c \<equiv> fst (iterate c)"

abbreviation finish :: "called \<Rightarrow> ending" where
  "finish c \<equiv> snd (iterate c)"

section \<open>Coercion of arguments\<close>

text \<open>An argument that is either a string or already a matcher (any other object).\<close>

datatype arg = S string | M matcher

section \<open>Terminal matchers\<close>

text \<open>\<^verbatim>\<open>Any.__call__\<close>; \<open>restrict = None\<close> is the omitted argument.\<close>

definition py_not :: "string option \<Rightarrow> bool" where
  "py_not restrict = (case restrict of None \<Rightarrow> True | Some r \<Rightarrow> r = [])"

definition py_in :: "char \<Rightarrow> string option \<Rightarrow> bool" where
  "py_in c restrict = (case restrict of None \<Rightarrow> False | Some r \<Rightarrow> c \<in> set r)"

definition Any :: "string option \<Rightarrow> matcher" where
  "Any restrict s =
     managed (Generator
       (case tokens s of
          [] \<Rightarrow> ([], Exhausted)
        | c # _ \<Rightarrow> if py_not restrict \<or> py_in c restrict
                   then ([([Str [c]], advance 1 s)], Exhausted)
                   else ([], Exhausted)))"

text \<open>\<^verbatim>\<open>Literal.__call__\<close>\<close>

definition Literal_matcher :: "string \<Rightarrow> matcher" where
  "Literal_matcher text s =
     managed (Generator
       (if text = take (length text) (tokens s)
        then ([([Str text], advance (length text) s)], Exhausted)
        else ([], Exhausted)))"

text \<open>\<^verbatim>\<open>coerce(arg, function=Literal)\<close>\<close>

fun coerce :: "arg \<Rightarrow> matcher" where
  "coerce (S text) = Literal_matcher text"
| "coerce (M m) = m"

text \<open>\<^verbatim>\<open>Empty.__call__\<close>\<close>

definition Empty :: matcher where
  "Empty s = managed (Generator ([([], s)], Exhausted))"

section \<open>And\<close>

text \<open>
  The work left in one stack frame of \<^verbatim>\<open>And.__call__\<close>: one step to pop it when
  its generator is used up, and for each item one step plus the frame pushed for it.
\<close>

primrec cost :: "matcher list \<Rightarrow> attempt list \<Rightarrow> nat" where
  "cost [] items = Suc (length items)"
| "cost (m # ms) items =
     Suc (sum_list (map (\<lambda>a. Suc (cost ms (fst (pull (m (snd a)))))) items))"

text \<open>
  The \<^verbatim>\<open>while stack\<close> loop of \<^verbatim>\<open>And.__call__\<close>. The head of the list is the top of the
  stack. A frame is \<^verbatim>\<open>(result, generator, matchers)\<close>. \<^verbatim>\<open>StopIteration\<close> is caught and
  the frame dropped; any other exception leaves the loop.
\<close>

function and_loop :: "(val list \<times> attempt gen \<times> matcher list) list \<Rightarrow> attempt gen" where
  "and_loop [] = ([], Exhausted)"
| "and_loop ((result, ([], e), matchers) # stack) =
     (if e = Exhausted then and_loop stack else ([], e))"
| "and_loop ((result, ((value, stream) # items, e), []) # stack) =
     yield (result @ value, stream) (and_loop ((result, (items, e), []) # stack))"
| "and_loop ((result, ((value, stream) # items, e), m # ms) # stack) =
     and_loop ((result @ value, pull (m stream), ms)
               # (result, (items, e), m # ms) # stack)"
  by pat_completeness auto
termination
proof (relation "measure (\<lambda>stack. sum_list (map (\<lambda>(r, g, ms). cost ms (fst g)) stack))")
  show "wf (measure (\<lambda>stack. sum_list (map (\<lambda>(r, g, ms). cost ms (fst g)) stack)))"
    by simp
next
  fix result :: "val list" and e :: ending and matchers :: "matcher list"
    and stack :: "(val list \<times> attempt gen \<times> matcher list) list"
  have "0 < cost matchers []"
    by (cases matchers) simp_all
  then show "(stack, (result, ([], e), matchers) # stack)
      \<in> measure (\<lambda>stack. sum_list (map (\<lambda>(r, g, ms). cost ms (fst g)) stack))"
    by simp
qed auto

text \<open>\<^verbatim>\<open>And.__init__\<close> and \<^verbatim>\<open>And.__call__\<close>\<close>

definition And :: "arg list \<Rightarrow> matcher" where
  "And matchers stream =
     managed (Generator
       (case map coerce matchers of
          [] \<Rightarrow> ([], Exhausted)
        | m # ms \<Rightarrow> and_loop [([], pull (m stream), ms)]))"

section \<open>Or\<close>

text \<open>
  \<^verbatim>\<open>for match in self.__matchers: for result in match(stream): yield result\<close>.
  The call to \<^verbatim>\<open>_warn\<close> only logs.
\<close>

fun or_loop :: "matcher list \<Rightarrow> stream \<Rightarrow> attempt gen" where
  "or_loop [] stream = ([], Exhausted)"
| "or_loop (match # matchers) stream = gen_then (for_view (match stream)) (or_loop matchers stream)"

text \<open>The child, run on \<open>s\<close> by a \<^verbatim>\<open>for\<close> loop, stops normally.\<close>

definition ends_normally :: "stream \<Rightarrow> arg \<Rightarrow> bool" where
  "ends_normally s m = (snd (for_view (coerce m s)) = Exhausted)"

definition Or :: "arg list \<Rightarrow> matcher" where
  "Or matchers stream = managed (Generator (or_loop (map coerce matchers) stream))"

section \<open>Lookahead\<close>

text \<open>
  \<^verbatim>\<open>Lookahead.__call__\<close>. Only the first item of the child is asked for, and it is not
  unpacked. When the child has no first item, the \<^verbatim>\<open>for\<close> ends as the child ends.
\<close>

definition Lookahead :: "arg \<Rightarrow> bool \<Rightarrow> matcher" where
  "Lookahead matcher negated stream =
     managed (Generator
       (case for_view (coerce matcher stream) of
          (result # _, _) \<Rightarrow> if negated then ([], Exhausted) else ([([], stream)], Exhausted)
        | ([], e) \<Rightarrow> if e = Matchers
                     then (if negated then ([], Exhausted) else ([([], stream)], Exhausted))
                     else if e = Exhausted
                     then (if negated then ([([], stream)], Exhausted) else ([], Exhausted))
                     else ([], e)))"

text \<open>\<^verbatim>\<open>Lookahead.__invert__\<close>\<close>

definition Lookahead_invert :: "arg \<Rightarrow> bool \<Rightarrow> matcher" where
  "Lookahead_invert matcher negated = Lookahead matcher (\<not> negated)"

section \<open>Repeat\<close>

text \<open>
  The arguments \<^verbatim>\<open>start\<close>, \<^verbatim>\<open>stop\<close> and \<^verbatim>\<open>direction\<close> as Python passes them:
  \<^verbatim>\<open>None\<close>, an \<^verbatim>\<open>int\<close> (a \<^verbatim>\<open>bool\<close> is an \<^verbatim>\<open>int\<close>), or an object of any
  other type.
\<close>

datatype pyarg = PyNone | PyInt int | PyOther

text \<open>\<^verbatim>\<open>assert_type(name, value, int, none_ok)\<close> of \<^verbatim>\<open>lepl.support\<close>\<close>

definition assert_type :: "pyarg \<Rightarrow> bool \<Rightarrow> error + unit" where
  "assert_type value none_ok =
     (if none_ok \<and> value = PyNone then Inr ()
      else case value of PyInt _ \<Rightarrow> Inr () | _ \<Rightarrow> Inl TypeError)"

record repeat =
  first :: matcher
  second :: matcher
  start :: int
  stop :: "int option"
  direction :: int

text \<open>The checks of \<^verbatim>\<open>Repeat.__init__\<close> on values already known to be integers.\<close>

definition check_range :: "matcher \<Rightarrow> matcher \<Rightarrow> int \<Rightarrow> int option \<Rightarrow> int \<Rightarrow> error + repeat" where
  "check_range fst_m snd_m start_v stop_v direction_v =
     (if start_v < 0 then Inl ValueError
      else if (case stop_v of None \<Rightarrow> False | Some b \<Rightarrow> b < start_v) then Inl ValueError
      else if abs direction_v > 1 then Inl ValueError
      else Inr \<lparr>first = fst_m, second = snd_m, start = start_v, stop = stop_v,
                direction = direction_v\<rparr>)"

text \<open>\<^verbatim>\<open>Repeat.__init__\<close>\<close>

definition Repeat_init :: "arg \<Rightarrow> pyarg \<Rightarrow> pyarg \<Rightarrow> pyarg \<Rightarrow> arg option \<Rightarrow> error + repeat" where
  "Repeat_init matcher start_a stop_a direction_a separator =
     (let fst_m = coerce matcher;
          snd_m = (case separator of None \<Rightarrow> fst_m | Some sep \<Rightarrow> And [sep, matcher]);
          start_b = (if start_a = PyNone then PyInt 0 else start_a)
      in case assert_type start_b False of Inl e \<Rightarrow> Inl e | Inr _ \<Rightarrow>
         (case assert_type stop_a True of Inl e \<Rightarrow> Inl e | Inr _ \<Rightarrow>
         (case assert_type direction_a False of Inl e \<Rightarrow> Inl e | Inr _ \<Rightarrow>
         (case (start_b, stop_a, direction_a) of
            (PyInt a, PyNone, PyInt d) \<Rightarrow> check_range fst_m snd_m a None d
          | (PyInt a, PyInt b, PyInt d) \<Rightarrow> check_range fst_m snd_m a (Some b) d
          | _ \<Rightarrow> Inl TypeError))))"

text \<open>\<^verbatim>\<open>self._stop == None or count <= self._stop\<close> and the same with \<^verbatim>\<open><\<close>\<close>

definition le_stop :: "int \<Rightarrow> int option \<Rightarrow> bool" where
  "le_stop count stop_v = (case stop_v of None \<Rightarrow> True | Some b \<Rightarrow> count \<le> b)"

definition lt_stop :: "int \<Rightarrow> int option \<Rightarrow> bool" where
  "lt_stop count stop_v = (case stop_v of None \<Rightarrow> True | Some b \<Rightarrow> count < b)"

text \<open>\<^verbatim>\<open>Repeat.__matcher\<close>\<close>

definition matcher_for :: "repeat \<Rightarrow> int \<Rightarrow> matcher" where
  "matcher_for r count = (if 0 = count then first r else second r)"

type_synonym triple = "int \<times> val list \<times> stream"

text \<open>
  The \<^verbatim>\<open>for\<close> loop inside \<^verbatim>\<open>__with_depth\<close>, over the items the child yields: what
  it yields itself and what it appends to the queue.
\<close>

fun with_depth_for :: "repeat \<Rightarrow> int \<Rightarrow> val list \<Rightarrow> attempt list \<Rightarrow> triple list \<times> triple list" where
  "with_depth_for r count2 acc1 [] = ([], [])"
| "with_depth_for r count2 acc1 ((value, stream2) # items) =
     (let acc2 = acc1 @ value;
          rest = with_depth_for r count2 acc1 items
      in ((if count2 \<ge> start r \<and> le_stop count2 (stop r)
           then (count2, acc2, stream2) # fst rest else fst rest),
          (if lt_stop count2 (stop r)
           then (count2, acc2, stream2) # snd rest else snd rest)))"

text \<open>
  The \<^verbatim>\<open>while queue\<close> loop of \<^verbatim>\<open>__with_depth\<close>. It need not end (no \<^verbatim>\<open>stop\<close> and a
  child that matches without consuming), so each iteration uses one unit of fuel.
\<close>

fun with_depth_while :: "nat \<Rightarrow> repeat \<Rightarrow> triple list \<Rightarrow> triple gen" where
  "with_depth_while fuel r [] = ([], Exhausted)"
| "with_depth_while 0 r (q # queue) = ([], OutOfFuel)"
| "with_depth_while (Suc fuel) r ((count1, acc1, stream1) # queue) =
     (let count2 = count1 + 1;
          child = iterate (matcher_for r count1 stream1);
          found = with_depth_for r count2 acc1 (fst child)
      in if snd child = Exhausted
         then gen_then (fst found, Exhausted) (with_depth_while fuel r (queue @ snd found))
         else (fst found, snd child))"

text \<open>\<^verbatim>\<open>Repeat.__with_depth\<close>\<close>

definition with_depth :: "nat \<Rightarrow> repeat \<Rightarrow> stream \<Rightarrow> triple gen" where
  "with_depth fuel r stream =
     (let rest = with_depth_while fuel r [(0, [], stream)]
      in if 0 = start r then yield (0, [], stream) rest else rest)"

text \<open>\<^verbatim>\<open>Repeat.__breadth_first\<close>\<close>

definition breadth_first :: "nat \<Rightarrow> repeat \<Rightarrow> stream \<Rightarrow> attempt gen" where
  "breadth_first fuel r stream =
     (let found = with_depth fuel r stream
      in (map (\<lambda>(depth, results, stream'). (results, stream')) (fst found), snd found))"

text \<open>
  The dictionary \<^verbatim>\<open>all\<close> of \<^verbatim>\<open>__exhaustive\<close>, as the list of its entries in the order
  in which the keys were first inserted (the order \<^verbatim>\<open>all.keys()\<close> gives).
\<close>

fun all_append :: "(int \<times> attempt list) list \<Rightarrow> int \<Rightarrow> attempt \<Rightarrow> (int \<times> attempt list) list" where
  "all_append [] depth a = [(depth, [a])]"
| "all_append ((d, as) # all) depth a =
     (if d = depth then (d, as @ [a]) # all else (d, as) # all_append all depth a)"

fun all_step :: "(int \<times> attempt list) list \<Rightarrow> triple \<Rightarrow> (int \<times> attempt list) list" where
  "all_step all (depth, results, stream) = all_append all depth (results, stream)"

definition collect_all :: "triple list \<Rightarrow> (int \<times> attempt list) list" where
  "collect_all found = foldl all_step [] found"

text \<open>The attempts held in the dictionary, each with the key it is stored under.\<close>

definition counted :: "(int \<times> attempt list) list \<Rightarrow> triple list" where
  "counted all = concat (map (\<lambda>(d, as). map (Pair d) as) all)"

text \<open>
  \<^verbatim>\<open>Repeat.__exhaustive\<close>: nothing is yielded before \<^verbatim>\<open>__with_depth\<close> has ended.
\<close>

definition exhaustive :: "nat \<Rightarrow> repeat \<Rightarrow> stream \<Rightarrow> attempt gen" where
  "exhaustive fuel r stream =
     (let found = with_depth fuel r stream
      in if snd found = Exhausted
         then (concat (map snd (rev (collect_all (fst found)))), Exhausted)
         else ([], snd found))"

text \<open>
  \<^verbatim>\<open>(value, stream2) = next(generator)\<close> on a generator held in a stack frame: the
  item and the generator advanced; or an exception (a generator that has raised is
  finished; one that yields matchers goes on doing so, and unpacking a matcher raises);
  or no return at all.
\<close>

datatype next_result = Item attempt called | Failed called | Hangs

fun py_next :: "called \<Rightarrow> next_result" where
  "py_next (Generator (x # xs, e)) = Item x (Generator (xs, e))"
| "py_next (Generator ([], OutOfFuel)) = Hangs"
| "py_next (Generator ([], Matchers)) = Failed (Generator ([], Matchers))"
| "py_next (Generator ([], e)) = Failed (Generator ([], Exhausted))"
| "py_next NotIterator = Failed NotIterator"
| "py_next (CallRaised e) = Failed (CallRaised e)"

type_synonym frame = "int \<times> val list \<times> stream \<times> called"

text \<open>
  The first half of the body of the \<^verbatim>\<open>while stack\<close> loop of \<^verbatim>\<open>__depth_first\<close>: the
  attempt to extend the top frame. \<open>count2\<close> is the local variable \<^verbatim>\<open>count2\<close>,
  \<open>None\<close> while it has not been assigned. The bare \<^verbatim>\<open>except\<close> swallows every
  exception of \<^verbatim>\<open>next\<close> and of the call of the child.
\<close>

datatype extension = Extended int frame called | NotExtended "int option" called | Stuck

definition try_extend :: "repeat \<Rightarrow> int option \<Rightarrow> frame \<Rightarrow> extension" where
  "try_extend r count2 fr =
     (case fr of (count1, acc1, stream1, generator) \<Rightarrow>
        if lt_stop count1 (stop r)
        then (case py_next generator of
                Hangs \<Rightarrow> Stuck
              | Failed generator' \<Rightarrow> NotExtended (Some (count1 + 1)) generator'
              | Item (value, stream2) generator' \<Rightarrow>
                  (case matcher_for r (count1 + 1) stream2 of
                     CallRaised e \<Rightarrow> NotExtended (Some (count1 + 1)) generator'
                   | g \<Rightarrow> Extended (count1 + 1) (count1 + 1, acc1 @ value, stream2, g) generator'))
        else NotExtended count2 generator)"

text \<open>
  The \<^verbatim>\<open>finally\<close> clause when an exception leaves the loop: \<^verbatim>\<open>close\<close> is called on
  each generator of the stack, and an object that is no generator has no \<^verbatim>\<open>close\<close>.
\<close>

definition closing :: "frame list \<Rightarrow> error \<Rightarrow> error" where
  "closing stack e =
     (if \<exists>fr \<in> set stack. snd (snd (snd fr)) = NotIterator then AttributeError else e)"

text \<open>
  The \<^verbatim>\<open>while stack\<close> loop of \<^verbatim>\<open>__depth_first\<close>; the head of the list is the top of
  the stack. The loop need not end, so each iteration uses one unit of fuel. Reading
  \<^verbatim>\<open>count2\<close> before it has been assigned raises \<^verbatim>\<open>UnboundLocalError\<close>.
\<close>

fun depth_first_while :: "nat \<Rightarrow> repeat \<Rightarrow> int option \<Rightarrow> frame list \<Rightarrow> attempt gen" where
  "depth_first_while fuel r count2 [] = ([], Exhausted)"
| "depth_first_while 0 r count2 (fr # stack) = ([], OutOfFuel)"
| "depth_first_while (Suc fuel) r count2 ((count1, acc1, stream1, generator) # stack) =
     (case try_extend r count2 (count1, acc1, stream1, generator) of
        Stuck \<Rightarrow> ([], OutOfFuel)
      | Extended c2 fr generator' \<Rightarrow>
          depth_first_while fuel r (Some c2) (fr # (count1, acc1, stream1, generator') # stack)
      | NotExtended None generator' \<Rightarrow>
          ([], Raised (closing ((count1, acc1, stream1, generator') # stack) UnboundLocalError))
      | NotExtended (Some c2) generator' \<Rightarrow>
          if c2 \<ge> start r \<and> le_stop c2 (stop r)
          then yield (acc1, stream1) (depth_first_while fuel r (Some c2) stack)
          else depth_first_while fuel r (Some c2) ((count1, acc1, stream1, generator') # stack))"

text \<open>\<^verbatim>\<open>Repeat.__depth_first\<close>\<close>

definition depth_first :: "nat \<Rightarrow> repeat \<Rightarrow> stream \<Rightarrow> attempt gen" where
  "depth_first fuel r stream =
     (case matcher_for r 0 stream of
        CallRaised e \<Rightarrow> ([], Raised e)
      | g \<Rightarrow> depth_first_while fuel r None [(0, [], stream, g)])"

text \<open>\<^verbatim>\<open>Repeat.__call__\<close>\<close>

definition Repeat_call :: "nat \<Rightarrow> repeat \<Rightarrow> matcher" where
  "Repeat_call fuel r stream =
     managed (Generator
       (if direction r > 0 then breadth_first fuel r stream
        else if direction r = 0 then depth_first fuel r stream
        else exhaustive fuel r stream))"

text \<open>Construction followed by use: \<^verbatim>\<open>Repeat(matcher, start, stop, direction, separator)\<close>.\<close>

definition Repeat :: "nat \<Rightarrow> arg \<Rightarrow> pyarg \<Rightarrow> pyarg \<Rightarrow> pyarg \<Rightarrow> arg option \<Rightarrow> error + matcher" where
  "Repeat fuel matcher start_a stop_a direction_a separator =
     (case Repeat_init matcher start_a stop_a direction_a separator of
        Inl e \<Rightarrow> Inl e
      | Inr r \<Rightarrow> Inr (Repeat_call fuel r))"

section \<open>Apply and the transformers built on it\<close>

text \<open>
  The \<^verbatim>\<open>function\<close> argument of \<^verbatim>\<open>Apply\<close> together with its \<^verbatim>\<open>raw\<close> flag: a string
  (then \<^verbatim>\<open>raw\<close> is not looked at), a function used as it is (\<^verbatim>\<open>raw=True\<close>, it returns
  the list of results), or a function whose value is wrapped in a list. A Python
  function is applied to the list of its positional arguments and returns or raises.
\<close>

datatype transform =
    Label string
  | RawFunction "val list \<Rightarrow> error + val list"
  | Function "val list \<Rightarrow> error + val"

definition named :: "string \<Rightarrow> val \<Rightarrow> val" where
  "named name x = Tup [Str name, x]"

text \<open>
  \<^verbatim>\<open>self.__function\<close> as \<^verbatim>\<open>Apply.__init__\<close> builds it. The two lambdas take exactly
  one argument. \<^verbatim>\<open>list(map(..., results))\<close> runs over a list, a tuple or the characters
  of a string.
\<close>

fun apply_function :: "transform \<Rightarrow> val list \<Rightarrow> error + val list" where
  "apply_function (Label name) [Lst results] = Inr (map (named name) results)"
| "apply_function (Label name) [Tup results] = Inr (map (named name) results)"
| "apply_function (Label name) [Str cs] = Inr (map (\<lambda>c. named name (Str [c])) cs)"
| "apply_function (Label name) _ = Inl TypeError"
| "apply_function (RawFunction f) args = f args"
| "apply_function (Function f) [results] =
     (case f [results] of Inl e \<Rightarrow> Inl e | Inr v \<Rightarrow> Inr [v])"
| "apply_function (Function f) _ = Inl TypeError"

text \<open>The \<^verbatim>\<open>for\<close> loop of \<^verbatim>\<open>Apply.__call__\<close> over the items the child yields.\<close>

fun apply_for :: "transform \<Rightarrow> bool \<Rightarrow> attempt list \<Rightarrow> ending \<Rightarrow> attempt gen" where
  "apply_for t args [] e = ([], e)"
| "apply_for t args ((results, stream) # items) e =
     (case (if args then apply_function t results else apply_function t [Lst results]) of
        Inl err \<Rightarrow> ([], Raised err)
      | Inr rs \<Rightarrow> yield (rs, stream) (apply_for t args items e))"

text \<open>\<^verbatim>\<open>Apply(matcher, function, raw, args)\<close>\<close>

definition Apply :: "arg \<Rightarrow> transform \<Rightarrow> bool \<Rightarrow> matcher" where
  "Apply matcher t args stream =
     managed (Generator
       (let child = iterate (coerce matcher stream)
        in apply_for t args (fst child) (snd child)))"

text \<open>Python's \<^verbatim>\<open>+\<close> on the values modelled.\<close>

fun py_plus :: "val \<Rightarrow> val \<Rightarrow> error + val" where
  "py_plus (Str a) (Str b) = Inr (Str (a @ b))"
| "py_plus (Num a) (Num b) = Inr (Num (a + b))"
| "py_plus (Tup a) (Tup b) = Inr (Tup (a @ b))"
| "py_plus (Lst a) (Lst b) = Inr (Lst (a @ b))"
| "py_plus _ _ = Inl TypeError"

text \<open>
  The function \<^verbatim>\<open>add\<close> local to \<^verbatim>\<open>Add\<close> and its loop over \<^verbatim>\<open>results[1:]\<close>.
  \<^verbatim>\<open>Apply\<close> always calls it with one argument, the list of results.
\<close>

fun add_loop :: "val \<Rightarrow> val list \<Rightarrow> error + val" where
  "add_loop result [] = Inr result"
| "add_loop result (extra # rest) =
     (case py_plus result extra of Inl e \<Rightarrow> Inl e | Inr r \<Rightarrow> add_loop r rest)"

fun add :: "val list \<Rightarrow> error + val list" where
  "add [Lst []] = Inr []"
| "add [Lst (result # extras)] =
     (case add_loop result extras of Inl e \<Rightarrow> Inl e | Inr r \<Rightarrow> Inr [r])"
| "add _ = Inl TypeError"

definition Add :: "arg \<Rightarrow> matcher" where
  "Add matcher = Apply matcher (RawFunction add) False"

definition Drop :: "arg \<Rightarrow> matcher" where
  "Drop matcher = Apply matcher (RawFunction (\<lambda>l. Inr [])) False"

text \<open>\<^verbatim>\<open>Identity\<close>\<close>

definition Identity :: "arg \<Rightarrow> matcher" where
  "Identity matcher = coerce matcher"

section \<open>KApply\<close>

text \<open>The keyword arguments given to the function of \<^verbatim>\<open>KApply\<close>.\<close>

record kargs =
  stream_in :: stream
  stream_out :: stream
  kcore :: "core option"
  results :: "val list"

text \<open>
  The \<^verbatim>\<open>function\<close> argument of \<^verbatim>\<open>KApply\<close> together with its \<^verbatim>\<open>raw\<close> flag: with
  \<^verbatim>\<open>raw=True\<close> the function returns the attempt itself, stream included.
\<close>

datatype kfunction =
    KFunction "kargs \<Rightarrow> error + val"
  | KRaw "kargs \<Rightarrow> error + attempt"

text \<open>The attribute access \<^verbatim>\<open>stream_in.core\<close>.\<close>

definition getattr_core :: "stream \<Rightarrow> error + core" where
  "getattr_core s = (case core s of None \<Rightarrow> Inl AttributeError | Some c \<Rightarrow> Inr c)"

fun kapply_call :: "kfunction \<Rightarrow> kargs \<Rightarrow> error + attempt" where
  "kapply_call (KRaw f) k = f k"
| "kapply_call (KFunction f) k =
     (case f k of Inl e \<Rightarrow> Inl e | Inr v \<Rightarrow> Inr ([v], stream_out k))"

text \<open>The \<^verbatim>\<open>for\<close> loop of \<^verbatim>\<open>KApply.__call__\<close> over the items the child yields.\<close>

fun kapply_for :: "kfunction \<Rightarrow> stream \<Rightarrow> core option \<Rightarrow> attempt list \<Rightarrow> ending \<Rightarrow> attempt gen" where
  "kapply_for f s_in c [] e = ([], e)"
| "kapply_for f s_in c ((rs, s_out) # items) e =
     (case kapply_call f \<lparr>stream_in = s_in, stream_out = s_out, kcore = c, results = rs\<rparr> of
        Inl err \<Rightarrow> ([], Raised err)
      | Inr a \<Rightarrow> yield a (kapply_for f s_in c items e))"

text \<open>\<^verbatim>\<open>KApply(matcher, function, raw)\<close>\<close>

definition KApply :: "arg \<Rightarrow> kfunction \<Rightarrow> matcher" where
  "KApply matcher f s_in =
     managed (Generator
       (let c = (case getattr_core s_in of Inl _ \<Rightarrow> None | Inr c \<Rightarrow> Some c);
            child = iterate (coerce matcher s_in)
        in kapply_for f s_in c (fst child) (snd child)))"

section \<open>Regexp and Delayed\<close>

text \<open>
  A compiled pattern is taken as the function \<^verbatim>\<open>pattern.match\<close>: on the text of the
  stream it gives nothing, or the matched text \<^verbatim>\<open>match.group()\<close> and the groups
  \<^verbatim>\<open>match.groups()\<close>.
\<close>

type_synonym pattern = "string \<Rightarrow> (string \<times> string list) option"

definition Regexp :: "pattern \<Rightarrow> matcher" where
  "Regexp pat stream =
     managed (Generator
       (case pat (tokens stream) of
          None \<Rightarrow> ([], Exhausted)
        | Some (whole, groups) \<Rightarrow>
            (let eaten = length whole
             in if groups \<noteq> [] then ([(map Str groups, advance eaten stream)], Exhausted)
                else ([([Str whole], advance eaten stream)], Exhausted))))"

text \<open>\<^verbatim>\<open>Delayed.__call__\<close> is no generator function: unbound, the call itself raises.\<close>

definition Delayed :: "matcher option \<Rightarrow> matcher" where
  "Delayed bound stream =
     managed (case bound of None \<Rightarrow> CallRaised ValueError | Some m \<Rightarrow> m stream)"

text \<open>\<^verbatim>\<open>Delayed.__iadd__\<close>, on the content of the placeholder.\<close>

definition Delayed_iadd :: "matcher option \<Rightarrow> arg \<Rightarrow> error + matcher option" where
  "Delayed_iadd bound matcher =
     (case bound of Some _ \<Rightarrow> Inl ValueError | None \<Rightarrow> Inr (Some (coerce matcher)))"

text \<open>\<^verbatim>\<open>Eof\<close>: \<^verbatim>\<open>~Lookahead(Any())\<close>\<close>

definition Eof :: matcher where
  "Eof = Lookahead_invert (M (Any None)) False"

section \<open>The operators of BaseMatch\<close>

text \<open>Evaluation of a Python expression whose parts may raise, left to right.\<close>

definition and_then :: "error + 'a \<Rightarrow> ('a \<Rightarrow> error + 'b) \<Rightarrow> error + 'b" where
  "and_then x f = (case x of Inl e \<Rightarrow> Inl e | Inr a \<Rightarrow> f a)"

text \<open>\<^verbatim>\<open>__add__\<close>, \<^verbatim>\<open>__radd__\<close> and \<^verbatim>\<open>__or__\<close>\<close>

definition add_op :: "matcher \<Rightarrow> arg \<Rightarrow> matcher" where
  "add_op self other = Add (M (And [M self, other]))"

definition radd_op :: "matcher \<Rightarrow> arg \<Rightarrow> matcher" where
  "radd_op self other = Add (M (And [other, M self]))"

definition or_op :: "matcher \<Rightarrow> arg \<Rightarrow> matcher" where
  "or_op self other = Or [M self, other]"

text \<open>
  One element of the subscript of \<^verbatim>\<open>__getitem__\<close>: an integer, a slice (each part
  \<^verbatim>\<open>None\<close>, an integer or something else), the ellipsis, or any other object.
\<close>

datatype index = Index int | Slice pyarg pyarg pyarg | Ellipsis | Other arg

text \<open>
  The \<^verbatim>\<open>for index in indices\<close> loop of \<^verbatim>\<open>__getitem__\<close> on the variables
  \<^verbatim>\<open>(start, stop, step, separator, add)\<close>.
\<close>

fun getitem_for ::
  "index list \<Rightarrow> pyarg \<times> pyarg \<times> pyarg \<times> arg option \<times> bool
   \<Rightarrow> error + (pyarg \<times> pyarg \<times> pyarg \<times> arg option \<times> bool)" where
  "getitem_for [] vars = Inr vars"
| "getitem_for (Index i # indices) (start_v, stop_v, step, separator, add_v) =
     getitem_for indices (PyInt i, PyInt i, PyInt (- 1), separator, add_v)"
| "getitem_for (Slice a b c # indices) (start_v, stop_v, step, separator, add_v) =
     getitem_for indices
       (if a \<noteq> PyNone then a else PyInt 0, b, if c \<noteq> PyNone then c else PyInt 0,
        separator, add_v)"
| "getitem_for (Ellipsis # indices) (start_v, stop_v, step, separator, add_v) =
     getitem_for indices (start_v, stop_v, step, separator, True)"
| "getitem_for (Other x # indices) (start_v, stop_v, step, separator, add_v) =
     (case separator of
        None \<Rightarrow> getitem_for indices (start_v, stop_v, step, Some (M (coerce x)), add_v)
      | Some _ \<Rightarrow> Inl TypeError)"

text \<open>\<^verbatim>\<open>BaseMatch.__getitem__\<close>; \<^verbatim>\<open>tag\<close> only labels the matcher for tracing.\<close>

definition getitem :: "nat \<Rightarrow> matcher \<Rightarrow> index list \<Rightarrow> error + matcher" where
  "getitem fuel self indices =
     and_then (getitem_for indices (PyInt 0, PyNone, PyInt 0, None, False))
       (\<lambda>(start_v, stop_v, step, separator, add_v).
          and_then (Repeat fuel (M self) start_v stop_v step separator)
            (\<lambda>m. Inr (if add_v then Add (M m) else Identity (M m))))"

section \<open>Numbers\<close>

definition Digit :: matcher where
  "Digit = Any (Some ''0123456789'')"

text \<open>\<^verbatim>\<open>Any(string.ascii_letters)\<close>\<close>

definition Letter :: matcher where
  "Letter = Any (Some ''abcdefghijklmnopqrstuvwxyzABCDEFGHIJKLMNOPQRSTUVWXYZ'')"

text \<open>\<^verbatim>\<open>coerce(matcher)[0:1]\<close>\<close>

definition Optional :: "nat \<Rightarrow> arg \<Rightarrow> error + matcher" where
  "Optional fuel matcher = getitem fuel (coerce matcher) [Slice (PyInt 0) (PyInt 1) PyNone]"

text \<open>\<^verbatim>\<open>Digit()[1:,...]\<close>\<close>

definition UnsignedInteger :: "nat \<Rightarrow> error + matcher" where
  "UnsignedInteger fuel = getitem fuel Digit [Slice (PyInt 1) PyNone PyNone, Ellipsis]"

text \<open>\<^verbatim>\<open>Any('+-')[0:1] + UnsignedInteger()\<close>\<close>

definition SignedInteger :: "nat \<Rightarrow> error + matcher" where
  "SignedInteger fuel =
     and_then (getitem fuel (Any (Some ''+-'')) [Slice (PyInt 0) (PyInt 1) PyNone]) (\<lambda>sign.
     and_then (UnsignedInteger fuel) (\<lambda>digits.
     Inr (add_op sign (M digits))))"

text \<open>
  \<^verbatim>\<open>(UnsignedInteger() + Optional(Any(decimal)))
      | (UnsignedInteger()[0:1] + Any(decimal) + UnsignedInteger())\<close>
\<close>

definition UnsignedFloat :: "nat \<Rightarrow> string \<Rightarrow> error + matcher" where
  "UnsignedFloat fuel decimal =
     and_then (UnsignedInteger fuel) (\<lambda>a.
     and_then (Optional fuel (M (Any (Some decimal)))) (\<lambda>b.
     and_then (UnsignedInteger fuel) (\<lambda>c.
     and_then (getitem fuel c [Slice (PyInt 0) (PyInt 1) PyNone]) (\<lambda>d.
     and_then (UnsignedInteger fuel) (\<lambda>f.
     Inr (or_op (add_op a (M b))
                (M (add_op (add_op d (M (Any (Some decimal)))) (M f)))))))))"

text \<open>\<^verbatim>\<open>Any('+-')[0:1] + UnsignedFloat(decimal)\<close>\<close>

definition SignedFloat :: "nat \<Rightarrow> string \<Rightarrow> error + matcher" where
  "SignedFloat fuel decimal =
     and_then (getitem fuel (Any (Some ''+-'')) [Slice (PyInt 0) (PyInt 1) PyNone]) (\<lambda>sign.
     and_then (UnsignedFloat fuel decimal) (\<lambda>number.
     Inr (add_op sign (M number))))"

text \<open>
  The function \<^verbatim>\<open>SignedFloat\<close> itself, used where a matcher is expected: called on a
  stream it takes the stream as its \<^verbatim>\<open>decimal\<close> argument and returns a matcher, which
  is no iterator.
\<close>

definition SignedFloat_function :: "nat \<Rightarrow> matcher" where
  "SignedFloat_function fuel stream =
     (case SignedFloat fuel (tokens stream) of Inl e \<Rightarrow> CallRaised e | Inr m \<Rightarrow> NotIterator)"

text \<open>
  \<^verbatim>\<open>SignedFloat + (Any(exponent) + SignedInteger())[0:1]\<close>: a function has no
  \<^verbatim>\<open>__add__\<close>, so this is \<^verbatim>\<open>__radd__\<close> of the repetition with the function as the
  other operand.
\<close>

definition SignedEFloat :: "nat \<Rightarrow> string \<Rightarrow> string \<Rightarrow> error + matcher" where
  "SignedEFloat fuel decimal exponent =
     and_then (SignedInteger fuel) (\<lambda>i.
     and_then (getitem fuel (add_op (Any (Some exponent)) (M i))
                 [Slice (PyInt 0) (PyInt 1) PyNone]) (\<lambda>tail.
     Inr (radd_op tail (M (SignedFloat_function fuel)))))"

text \<open>
  What the specification asks for instead:
  \<^verbatim>\<open>SignedFloat() + Optional(Any(exponent) + SignedInteger())\<close>.
\<close>

definition SignedEFloat_spec :: "nat \<Rightarrow> string \<Rightarrow> error + matcher" where
  "SignedEFloat_spec fuel exponent =
     and_then (SignedFloat fuel ''.'') (\<lambda>number.
     and_then (SignedInteger fuel) (\<lambda>i.
     and_then (Optional fuel (M (add_op (Any (Some exponent)) (M i)))) (\<lambda>tail.
     Inr (add_op number (M tail)))))"

section \<open>Parsing a string\<close>

text \<open>
  The results of the first attempt of a grammar on a plain string, if the grammar can
  be built and has an attempt.
\<close>

definition first_result :: "error + matcher \<Rightarrow> string \<Rightarrow> (val list) option" where
  "first_result built text =
     (case built of
        Inl e \<Rightarrow> None
      | Inr m \<Rightarrow> (case attempts (m \<lparr>tokens = text, core = None\<rparr>) of
                    [] \<Rightarrow> None
                  | (rs, rest) # _ \<Rightarrow> Some rs))"

section \<open>Validity of the parameters of Repeat, as the specification words it\<close>

text \<open>
  The value \<^verbatim>\<open>start\<close> stands for: \<^verbatim>\<open>None\<close> is replaced by 0 before any check.
\<close>

fun start_value :: "pyarg \<Rightarrow> int" where
  "start_value (PyInt a) = a"
| "start_value _ = 0"

text \<open>
  \<^verbatim>\<open>start\<close>, \<^verbatim>\<open>stop\<close> or \<^verbatim>\<open>direction\<close> has the wrong type: \<^verbatim>\<open>start\<close> and \<^verbatim>\<open>stop\<close>
  are integers or absent (\<^verbatim>\<open>None\<close>), \<^verbatim>\<open>direction\<close> is an integer.
\<close>

definition wrong_type :: "pyarg \<Rightarrow> pyarg \<Rightarrow> pyarg \<Rightarrow> bool" where
  "wrong_type start_a stop_a direction_a =
     (start_a = PyOther \<or> stop_a = PyOther \<or> direction_a = PyOther \<or> direction_a = PyNone)"

text \<open>
  Invalid parameters: a wrong type, or \<open>start < 0\<close>, or \<open>stop\<close> present and
  \<open>stop < start\<close>, or \<open>|direction| > 1\<close>.
\<close>

definition invalid_parameters :: "pyarg \<Rightarrow> pyarg \<Rightarrow> pyarg \<Rightarrow> bool" where
  "invalid_parameters start_a stop_a direction_a =
     (wrong_type start_a stop_a direction_a
      \<or> start_value start_a < 0
      \<or> (case stop_a of PyInt b \<Rightarrow> b < start_value start_a | _ \<Rightarrow> False)
      \<or> (case direction_a of PyInt d \<Rightarrow> abs d > 1 | _ \<Rightarrow> False))"

section \<open>Commit and Trace\<close>

text \<open>
  Modelled from the spec: the core context (its handles \<^verbatim>\<open>gc\<close> and \<^verbatim>\<open>bb\<close>) is not
  among the sources. By the spec, \<^verbatim>\<open>Commit\<close> yields one attempt \<^verbatim>\<open>([], stream)\<close> and
  tells the core to erase the pending backtracking alternatives, and it fails on a
  stream without the handle. Erasing closes generators held elsewhere, which ends their
  sequences early; it is no part of the sequence of \<^verbatim>\<open>Commit\<close> itself.
\<close>

definition Commit :: matcher where
  "Commit stream =
     managed (Generator
       (case getattr_core stream of
          Inl _ \<Rightarrow> ([], Raised ValueError)
        | Inr _ \<Rightarrow> ([([], stream)], Exhausted)))"

text \<open>
  Modelled from the spec: the switch \<^verbatim>\<open>core.bb.switch\<close> is not among the sources; it
  fails on a stream without the handle and otherwise only changes what is logged.
  \<^verbatim>\<open>Trace.__call__\<close> with \<^verbatim>\<open>_TraceDecorator\<close>: the child, which is not coerced, is
  called at once; each \<^verbatim>\<open>next\<close> of the decorator switches tracing on, takes the next
  item of the child as it is and switches tracing off.
\<close>

definition Trace :: "arg \<Rightarrow> matcher" where
  "Trace matcher stream =
     managed (case matcher of
        S text \<Rightarrow> CallRaised TypeError
      | M m \<Rightarrow> (case m stream of
                  CallRaised e \<Rightarrow> CallRaised e
                | c \<Rightarrow> Generator (case getattr_core stream of
                                   Inl _ \<Rightarrow> ([], Raised ValueError)
                                 | Inr _ \<Rightarrow> next_view c)))"

section \<open>Matchers as objects, and grammars tied through Delayed\<close>

text \<open>The fields of a \<^verbatim>\<open>Repeat\<close> object as \<^verbatim>\<open>Repeat.__init__\<close> sets them.\<close>

definition repeat_of :: "arg \<Rightarrow> arg option \<Rightarrow> int \<Rightarrow> int option \<Rightarrow> int \<Rightarrow> repeat" where
  "repeat_of matcher separator start_v stop_v direction_v =
     \<lparr>first = coerce matcher,
      second = (case separator of None \<Rightarrow> coerce matcher | Some sep \<Rightarrow> And [sep, matcher]),
      start = start_v, stop = stop_v, direction = direction_v\<rparr>"

text \<open>
  A matcher as the object the constructors build: its class and its arguments, strings
  already coerced to literals. A \<^verbatim>\<open>Delayed\<close> is a placeholder with an identity, here a
  number; what \<^verbatim>\<open>+=\<close> has bound it to is kept in a store, so that the matcher a
  placeholder is bound to may hold that placeholder again, as in a recursive grammar.
\<close>

datatype node =
    AnyN "string option"
  | LiteralN string
  | EmptyN
  | RegexpN pattern
  | AndN "node list"
  | OrN "node list"
  | LookaheadN node bool
  | ApplyN node transform bool
  | KApplyN node kfunction
  | RepeatN node "node option" int "int option" int
  | DelayedN nat
  | CommitN
  | TraceN node

type_synonym store = "nat \<Rightarrow> node option"

text \<open>
  \<^verbatim>\<open>__call__\<close> of a matcher object. Following a bound \<^verbatim>\<open>Delayed\<close> takes one unit of
  fuel, for a grammar may lead from a placeholder back to itself without end; the fuel
  left is also the fuel of the loops of \<^verbatim>\<open>Repeat\<close>.
\<close>

fun matcher_of :: "nat \<Rightarrow> store \<Rightarrow> node \<Rightarrow> matcher" where
  "matcher_of fuel store (AnyN restrict) = Any restrict"
| "matcher_of fuel store (LiteralN text) = Literal_matcher text"
| "matcher_of fuel store EmptyN = Empty"
| "matcher_of fuel store (RegexpN pat) = Regexp pat"
| "matcher_of fuel store (AndN ns) = And (map (\<lambda>n. M (matcher_of fuel store n)) ns)"
| "matcher_of fuel store (OrN ns) = Or (map (\<lambda>n. M (matcher_of fuel store n)) ns)"
| "matcher_of fuel store (LookaheadN n negated) = Lookahead (M (matcher_of fuel store n)) negated"
| "matcher_of fuel store (ApplyN n t args) = Apply (M (matcher_of fuel store n)) t args"
| "matcher_of fuel store (KApplyN n f) = KApply (M (matcher_of fuel store n)) f"
| "matcher_of fuel store (RepeatN n separator start_v stop_v direction_v) =
     Repeat_call fuel
       (repeat_of (M (matcher_of fuel store n))
          (map_option (\<lambda>sep. M (matcher_of fuel store sep)) separator)
          start_v stop_v direction_v)"
| "matcher_of 0 store (DelayedN i) =
     (case store i of
        None \<Rightarrow> Delayed None
      | Some n \<Rightarrow> (\<lambda>stream. Generator ([], OutOfFuel)))"
| "matcher_of (Suc fuel) store (DelayedN i) =
     Delayed (map_option (matcher_of fuel store) (store i))"
| "matcher_of fuel store CommitN = Commit"
| "matcher_of fuel store (TraceN n) = Trace (M (matcher_of fuel store n))"

text \<open>No \<^verbatim>\<open>KApply\<close> with \<^verbatim>\<open>raw=True\<close> in the matcher.\<close>

fun raw_free :: "node \<Rightarrow> bool" where
  "raw_free (KApplyN n (KRaw f)) = False"
| "raw_free (KApplyN n (KFunction f)) = raw_free n"
| "raw_free (AndN ns) = list_all raw_free ns"
| "raw_free (OrN ns) = list_all raw_free ns"
| "raw_free (LookaheadN n negated) = raw_free n"
| "raw_free (ApplyN n t args) = raw_free n"
| "raw_free (RepeatN n separator start_v stop_v direction_v) =
     (raw_free n \<and> (case separator of None \<Rightarrow> True | Some sep \<Rightarrow> raw_free sep))"
| "raw_free (TraceN n) = raw_free n"
| "raw_free _ = True"

section \<open>Suffixes\<close>

text \<open>
  \<open>s'\<close> is what is left of \<open>s\<close> after some tokens: a suffix of its tokens, with the
  same core.
\<close>

definition is_suffix :: "stream \<Rightarrow> stream \<Rightarrow> bool" where
  "is_suffix s' s = (suffix (tokens s') (tokens s) \<and> core s' = core s)"

text \<open>Every attempt of the matcher, on every stream, leaves a suffix of that stream.\<close>

definition keeps_suffix :: "matcher \<Rightarrow> bool" where
  "keeps_suffix m = (\<forall>s. \<forall>a \<in> set (attempts (m s)). is_suffix (snd a) s)"

text \<open>The frames of the stack of \<^verbatim>\<open>__depth_first\<close> that only hold suffixes of \<open>s0\<close>.\<close>

definition frame_ok :: "stream \<Rightarrow> frame \<Rightarrow> bool" where
  "frame_ok s0 fr =
     (case fr of (c, acc, s1, g) \<Rightarrow>
        is_suffix s1 s0 \<and> (\<forall>a \<in> set (attempts g). is_suffix (snd a) s0))"

text \<open>
  A function for \<^verbatim>\<open>KApply(..., raw=True)\<close> that returns an attempt with a stream of
  its own.
\<close>

definition fresh_stream :: "kargs \<Rightarrow> error + attempt" where
  "fresh_stream k = Inr ([], \<lparr>tokens = ''x'', core = None\<rparr>)"

section \<open>Properties\<close>

subsection \<open>The views of a call\<close>

lemma yield_eq: "yield x g = (x # fst g, snd g)"
  by (cases g) simp

lemma fst_unpack: "fst (unpack g) = fst g"
  by (cases g) simp

lemma snd_unpack: "snd (unpack g) = (if snd g = Matchers then Raised ValueError else snd g)"
  by (cases g) simp

lemma unpack_id: "snd g \<noteq> Matchers \<Longrightarrow> unpack g = g"
  by (cases g) simp

lemma iterate_simps:
  "iterate (CallRaised e) = ([], Raised e)"
  "iterate (Generator g) = unpack g"
  "iterate NotIterator = ([], Raised ValueError)"
  by (simp_all add: iterate_def)

lemma pull_simps:
  "pull (CallRaised e) = ([], Raised e)"
  "pull (Generator g) = unpack g"
  "pull NotIterator = ([], Raised TypeError)"
  by (simp_all add: pull_def)

declare fst_unpack [simp] snd_unpack [simp] iterate_simps [simp] pull_simps [simp]

lemma fst_pull: "fst (pull c) = attempts c"
  by (cases c) simp_all

lemma fst_for_view: "fst (for_view c) = attempts c"
  by (cases c) simp_all

lemma iterate_Generator: "snd g \<noteq> Matchers \<Longrightarrow> iterate (Generator g) = g"
  by (simp add: unpack_id)

lemma finish_not_Matchers: "finish c \<noteq> Matchers"
  by (cases c) simp_all

subsection \<open>The scenarios of the specification\<close>

text \<open>
  The model run on the end-to-end scenarios: \<^verbatim>\<open>Digit()[1:,...]\<close> on \<^verbatim>\<open>'123abc'\<close>,
  \<^verbatim>\<open>Letter()[1:] & Eof()\<close> on \<^verbatim>\<open>'abc'\<close> and on \<^verbatim>\<open>'ab1'\<close>,
  \<^verbatim>\<open>(Literal('a') | Literal('b'))[1:,...]\<close> on \<^verbatim>\<open>'abba'\<close>, \<^verbatim>\<open>SignedInteger()\<close> on
  \<^verbatim>\<open>'-42'\<close>, and \<^verbatim>\<open>Any()[::1] & Literal('b')\<close> on \<^verbatim>\<open>'aaab'\<close>.
\<close>

lemma scenario_digits: "first_result (UnsignedInteger 10) ''123abc'' = Some [Str ''123'']"
  by code_simp

lemma scenario_letters:
  "first_result
     (and_then (getitem 10 Letter [Slice (PyInt 1) PyNone PyNone]) (\<lambda>letters.
        Inr (And [M letters, M Eof]))) ''abc'' = Some [Str ''a'', Str ''b'', Str ''c'']"
  by code_simp

lemma scenario_letters_no_parse:
  "first_result
     (and_then (getitem 10 Letter [Slice (PyInt 1) PyNone PyNone]) (\<lambda>letters.
        Inr (And [M letters, M Eof]))) ''ab1'' = None"
  by code_simp

lemma scenario_alternatives:
  "first_result
     (getitem 10 (or_op (Literal_matcher ''a'') (S ''b''))
        [Slice (PyInt 1) PyNone PyNone, Ellipsis])
     ''abba'' = Some [Str ''abba'']"
  by code_simp

lemma scenario_signed_integer: "first_result (SignedInteger 10) ''-42'' = Some [Str ''-42'']"
  by code_simp

lemma scenario_non_greedy:
  "first_result
     (and_then (getitem 10 (Any None) [Slice PyNone PyNone (PyInt 1)]) (\<lambda>some.
        Inr (And [M some, S ''b'']))) ''aaab''
   = Some [Str ''a'', Str ''a'', Str ''a'', Str ''b'']"
  by code_simp

subsection \<open>The empty And\<close>

text \<open>
  C1, as amended. The body of \<^verbatim>\<open>And.__call__\<close> is guarded by
  \<^verbatim>\<open>if self.__matchers\<close>: with no children nothing is yielded, and the generator
  stops normally, on every stream.
\<close>

theorem And_empty_no_attempt: "And [] s = Generator ([], Exhausted)"
  by (simp add: And_def)

text \<open>C1 as stated fails: on the stream \<^verbatim>\<open>'a'\<close> the empty And does not yield \<^verbatim>\<open>([], 'a')\<close>.\<close>

theorem And_empty_counterexample:
  "attempts (And [] \<lparr>tokens = ''a'', core = None\<rparr>) \<noteq> [([], \<lparr>tokens = ''a'', core = None\<rparr>)]"
  by (simp add: And_def)

subsection \<open>Or\<close>

lemma gen_then_eq:
  "gen_then g h = (if snd g = Exhausted then (fst g @ fst h, snd h) else g)"
  by (cases g) simp

lemma or_loop_exact:
  "or_loop (map coerce ms) s =
     (concat (map (\<lambda>m. attempts (coerce m s))
        (takeWhile (ends_normally s) ms @ take 1 (dropWhile (ends_normally s) ms))),
      case dropWhile (ends_normally s) ms of
        [] \<Rightarrow> Exhausted
      | m # _ \<Rightarrow> snd (for_view (coerce m s)))"
proof (induction ms)
  case Nil
  show ?case by simp
next
  case (Cons m ms)
  show ?case
  proof (cases "ends_normally s m")
    case True
    then have e: "snd (for_view (coerce m s)) = Exhausted"
      by (simp add: ends_normally_def)
    show ?thesis
      using True by (simp add: Cons gen_then_eq fst_for_view e)
  next
    case False
    then have e: "snd (for_view (coerce m s)) \<noteq> Exhausted"
      by (simp add: ends_normally_def)
    have "for_view (coerce m s) = (attempts (coerce m s), snd (for_view (coerce m s)))"
      by (simp add: fst_for_view [symmetric])
    then show ?thesis
      using False e by (simp add: gen_then_eq)
  qed
qed

lemma takeWhile_butlast:
  "\<forall>m \<in> set (butlast ms). P m \<Longrightarrow> takeWhile P ms @ take 1 (dropWhile P ms) = ms"
  by (induction ms) (auto split: if_splits)

text \<open>
  C5, as amended. \<^verbatim>\<open>Or(m1, ..., mk)\<close> on \<open>s\<close> yields every attempt of \<open>m1\<close> on \<open>s\<close>,
  then every attempt of \<open>m2\<close> on \<open>s\<close>, and so on, up to and including the first child
  that does not stop normally, and ends as that child ends (normally when there is
  none): the children after it are never run. So when every child but perhaps the last
  stops normally, the attempts are those of all the children, in order. \<^verbatim>\<open>Or(m)\<close>
  yields and ends exactly as \<open>m\<close> does.
\<close>

theorem Or_up_to_first_failure:
  "Or ms s = Generator
     (concat (map (\<lambda>m. attempts (coerce m s))
        (takeWhile (ends_normally s) ms @ take 1 (dropWhile (ends_normally s) ms))),
      case dropWhile (ends_normally s) ms of
        [] \<Rightarrow> Exhausted
      | m # _ \<Rightarrow> snd (for_view (coerce m s)))
   \<and> ((\<forall>m \<in> set (butlast ms). ends_normally s m) \<longrightarrow>
        attempts (Or ms s) = concat (map (\<lambda>m. attempts (coerce m s)) ms))
   \<and> for_view (Or [m] s) = for_view (coerce m s)"
proof (intro conjI impI)
  show exact: "Or ms s = Generator
     (concat (map (\<lambda>m. attempts (coerce m s))
        (takeWhile (ends_normally s) ms @ take 1 (dropWhile (ends_normally s) ms))),
      case dropWhile (ends_normally s) ms of
        [] \<Rightarrow> Exhausted
      | m # _ \<Rightarrow> snd (for_view (coerce m s)))"
    by (simp add: Or_def or_loop_exact)
  assume "\<forall>m \<in> set (butlast ms). ends_normally s m"
  then have "takeWhile (ends_normally s) ms @ take 1 (dropWhile (ends_normally s) ms) = ms"
    by (rule takeWhile_butlast)
  then show "attempts (Or ms s) = concat (map (\<lambda>m. attempts (coerce m s)) ms)"
    by (simp add: exact)
next
  show "for_view (Or [m] s) = for_view (coerce m s)"
    by (simp add: Or_def gen_then_eq prod_eq_iff)
qed

theorem Or_up_to_first_failure_witness:
  "Or [M (Any None), S ''ab''] \<lparr>tokens = ''ab'', core = None\<rparr>
     = Generator ([([Str ''a''], \<lparr>tokens = ''b'', core = None\<rparr>),
                  ([Str ''ab''], \<lparr>tokens = [], core = None\<rparr>)], Exhausted)
   \<and> attempts (Or [M (Any None), S ''ab''] \<lparr>tokens = ''ab'', core = None\<rparr>)
     = attempts (Any None \<lparr>tokens = ''ab'', core = None\<rparr>)
       @ attempts (Literal_matcher ''ab'' \<lparr>tokens = ''ab'', core = None\<rparr>)"
proof -
  let ?s = "\<lparr>tokens = ''ab'', core = None\<rparr>"
  let ?ms = "[M (Any None), S ''ab'']"
  have h: "\<forall>m \<in> set (butlast ?ms). ends_normally ?s m"
    by (simp add: ends_normally_def Any_def)
  from Or_up_to_first_failure [of ?ms ?s] h
  have "Or ?ms ?s = Generator
     (concat (map (\<lambda>m. attempts (coerce m ?s))
        (takeWhile (ends_normally ?s) ?ms @ take 1 (dropWhile (ends_normally ?s) ?ms))),
      case dropWhile (ends_normally ?s) ?ms of
        [] \<Rightarrow> Exhausted
      | m # _ \<Rightarrow> snd (for_view (coerce m ?s)))"
    and "attempts (Or ?ms ?s) = concat (map (\<lambda>m. attempts (coerce m ?s)) ?ms)"
    by blast+
  then show ?thesis
    by (simp add: ends_normally_def Any_def Literal_matcher_def py_not_def advance_def)
qed

text \<open>
  C5 as stated fails: \<^verbatim>\<open>Or('a', Delayed(), 'a')\<close> on the stream \<^verbatim>\<open>'a'\<close> yields the
  attempt of the first child and then raises, the second child being unbound; the
  attempt of the third child is never yielded.
\<close>

theorem Or_counterexample:
  "attempts (Or [S ''a'', M (Delayed None), S ''a''] \<lparr>tokens = ''a'', core = None\<rparr>)
     \<noteq> attempts (coerce (S ''a'') \<lparr>tokens = ''a'', core = None\<rparr>)
       @ attempts (coerce (M (Delayed None)) \<lparr>tokens = ''a'', core = None\<rparr>)
       @ attempts (coerce (S ''a'') \<lparr>tokens = ''a'', core = None\<rparr>)"
  by (simp add: Or_def Delayed_def Literal_matcher_def advance_def)

subsection \<open>Lookahead\<close>

text \<open>
  C6, as amended. When the child has a first item on \<open>s\<close>, the positive lookahead yields
  \<open>([], s)\<close> once and the negative one yields nothing. When the child stops normally
  without an item, the negative lookahead yields \<open>([], s)\<close> once and the positive one
  yields nothing. When the child raises before its first item, the lookahead, positive
  or negative, yields nothing and raises the same exception. The only stream ever
  yielded is \<open>s\<close> itself. (A first item is an attempt or, for a child that is no
  matcher, a matcher.)
\<close>

theorem Lookahead_exact:
  "Lookahead child negated s = Generator
     (if attempts (coerce child s) \<noteq> [] \<or> snd (for_view (coerce child s)) = Matchers
      then (if negated then [] else [([], s)], Exhausted)
      else if snd (for_view (coerce child s)) = Exhausted
      then (if negated then [([], s)] else [], Exhausted)
      else ([], snd (for_view (coerce child s))))
   \<and> (\<forall>a \<in> set (attempts (Lookahead child negated s)). a = ([], s))"
  by (cases "for_view (coerce child s)")
     (auto simp: Lookahead_def fst_for_view [symmetric] split: list.splits)

theorem Lookahead_exact_witness:
  "Lookahead (S ''a'') True \<lparr>tokens = ''b'', core = None\<rparr>
     = Generator ([([], \<lparr>tokens = ''b'', core = None\<rparr>)], Exhausted)
   \<and> Lookahead (S ''a'') True \<lparr>tokens = ''a'', core = None\<rparr> = Generator ([], Exhausted)
   \<and> Lookahead (S ''a'') False \<lparr>tokens = ''a'', core = None\<rparr>
     = Generator ([([], \<lparr>tokens = ''a'', core = None\<rparr>)], Exhausted)
   \<and> Lookahead (M (Delayed None)) True \<lparr>tokens = ''a'', core = None\<rparr>
     = Generator ([], Raised ValueError)"
proof -
  have a: "Lookahead (S ''a'') True \<lparr>tokens = ''b'', core = None\<rparr>
     = Generator ([([], \<lparr>tokens = ''b'', core = None\<rparr>)], Exhausted)"
    using Lookahead_exact [of "S ''a''" True "\<lparr>tokens = ''b'', core = None\<rparr>", THEN conjunct1]
    by (simp add: Literal_matcher_def)
  have b: "Lookahead (S ''a'') True \<lparr>tokens = ''a'', core = None\<rparr> = Generator ([], Exhausted)"
    using Lookahead_exact [of "S ''a''" True "\<lparr>tokens = ''a'', core = None\<rparr>", THEN conjunct1]
    by (simp add: Literal_matcher_def)
  have c: "Lookahead (S ''a'') False \<lparr>tokens = ''a'', core = None\<rparr>
     = Generator ([([], \<lparr>tokens = ''a'', core = None\<rparr>)], Exhausted)"
    using Lookahead_exact [of "S ''a''" False "\<lparr>tokens = ''a'', core = None\<rparr>", THEN conjunct1]
    by (simp add: Literal_matcher_def)
  have d: "Lookahead (M (Delayed None)) True \<lparr>tokens = ''a'', core = None\<rparr>
     = Generator ([], Raised ValueError)"
    using Lookahead_exact [of "M (Delayed None)" True "\<lparr>tokens = ''a'', core = None\<rparr>", THEN conjunct1]
    by (simp add: Delayed_def)
  from a b c d show ?thesis by blast
qed

text \<open>
  C6 as stated fails: the unbound \<^verbatim>\<open>Delayed()\<close> produces no attempt on \<^verbatim>\<open>'a'\<close>, yet the
  negative lookahead on it does not yield \<^verbatim>\<open>([], 'a')\<close>: it raises.
\<close>

theorem Lookahead_counterexample:
  "attempts (coerce (M (Delayed None)) \<lparr>tokens = ''a'', core = None\<rparr>) = []
   \<and> attempts (Lookahead (M (Delayed None)) True \<lparr>tokens = ''a'', core = None\<rparr>)
       \<noteq> [([], \<lparr>tokens = ''a'', core = None\<rparr>)]"
  by (simp add: Lookahead_def Delayed_def)

subsection \<open>Any with an empty restriction\<close>

text \<open>
  C9. On a stream that is not empty, \<^verbatim>\<open>Any('')\<close> yields exactly one attempt, the
  first token with the stream advanced by one, as \<^verbatim>\<open>Any()\<close> does: the test
  \<^verbatim>\<open>not self.__restrict\<close> holds for the empty collection as it does for \<^verbatim>\<open>None\<close>.
\<close>

theorem Any_empty_restrict:
  "tokens s \<noteq> [] \<Longrightarrow>
   Any (Some []) s = Generator ([([Str [hd (tokens s)]], advance 1 s)], Exhausted)
   \<and> Any (Some []) s = Any None s"
  by (cases "tokens s") (simp_all add: Any_def py_not_def)

theorem Any_empty_restrict_witness:
  "Any (Some []) \<lparr>tokens = ''xy'', core = None\<rparr>
     = Generator ([([Str ''x''], \<lparr>tokens = ''y'', core = None\<rparr>)], Exhausted)"
  using Any_empty_restrict [of "\<lparr>tokens = ''xy'', core = None\<rparr>"]
  by (simp add: advance_def)

subsection \<open>Construction of Repeat\<close>

text \<open>
  C7. \<^verbatim>\<open>Repeat.__init__\<close> raises exactly when the parameters are invalid: a wrong type,
  \<open>start < 0\<close>, \<open>stop\<close> present and below \<open>start\<close>, or \<open>|direction| > 1\<close>. The error
  is the result of the constructor itself. With valid parameters the constructor
  returns the matcher, holding the bounds and the direction given (\<open>start\<close> is 0 when
  \<^verbatim>\<open>None\<close> was given).
\<close>

theorem Repeat_init_raises_iff:
  "((\<exists>e. Repeat_init matcher start_a stop_a direction_a separator = Inl e)
      \<longleftrightarrow> invalid_parameters start_a stop_a direction_a)
   \<and> (\<not> invalid_parameters start_a stop_a direction_a \<longrightarrow>
        (\<exists>r. Repeat_init matcher start_a stop_a direction_a separator = Inr r
           \<and> start r = start_value start_a
           \<and> PyInt (direction r) = direction_a
           \<and> (case stop r of None \<Rightarrow> stop_a = PyNone | Some b \<Rightarrow> stop_a = PyInt b)))"
  by (cases start_a; cases stop_a; cases direction_a)
     (auto simp: Repeat_init_def assert_type_def check_range_def invalid_parameters_def
        wrong_type_def Let_def)

theorem Repeat_init_raises_iff_witness:
  "Repeat_init (S ''a'') (PyInt 2) (PyInt 1) (PyInt 0) None = Inl ValueError
   \<and> Repeat_init (S ''a'') (PyInt 0) PyNone PyNone None = Inl TypeError
   \<and> (\<exists>r. Repeat_init (S ''a'') PyNone (PyInt 3) (PyInt (- 1)) None = Inr r
         \<and> start r = 0 \<and> stop r = Some 3 \<and> direction r = - 1)"
proof -
  have "\<not> invalid_parameters PyNone (PyInt 3) (PyInt (- 1))"
    by (simp add: invalid_parameters_def wrong_type_def)
  with Repeat_init_raises_iff [of "S ''a''" PyNone "PyInt 3" "PyInt (- 1)" None]
  have "\<exists>r. Repeat_init (S ''a'') PyNone (PyInt 3) (PyInt (- 1)) None = Inr r
         \<and> start r = 0 \<and> stop r = Some 3 \<and> direction r = - 1"
    by (auto split: option.splits)
  moreover have "Repeat_init (S ''a'') (PyInt 2) (PyInt 1) (PyInt 0) None = Inl ValueError"
    by (simp add: Repeat_init_def assert_type_def check_range_def)
  moreover have "Repeat_init (S ''a'') (PyInt 0) PyNone PyNone None = Inl TypeError"
    by (simp add: Repeat_init_def assert_type_def check_range_def)
  ultimately show ?thesis by blast
qed

subsection \<open>KApply on a stream without a core\<close>





subsection \<open>Repeat with no repetition allowed\<close>

lemma depth_first_zero_zero:
  assumes "stop r = Some 0"
  shows "fst (depth_first (Suc fuel) r s) = [] \<and> (\<exists>e. snd (depth_first (Suc fuel) r s) = Raised e)"
  using assms
  by (cases "matcher_for r 0 s")
     (simp_all add: depth_first_def try_extend_def lt_stop_def)

text \<open>
  With \<open>start = stop = 0\<close> and \<open>direction = 0\<close> the construction succeeds, and the
  matcher yields nothing and raises, whatever the child, the separator and the stream.
\<close>

lemma Repeat_zero_zero_depth_first:
  "\<exists>r. Repeat_init m (PyInt 0) (PyInt 0) (PyInt 0) sep = Inr r
       \<and> (\<forall>fuel s. attempts (Repeat_call (Suc fuel) r s) = []
            \<and> (\<exists>e. finish (Repeat_call (Suc fuel) r s) = Raised e))"
proof -
  let ?r = "\<lparr>first = coerce m, second = (case sep of None \<Rightarrow> coerce m | Some x \<Rightarrow> And [x, m]),
            start = 0, stop = Some 0, direction = 0\<rparr>"
  have "Repeat_init m (PyInt 0) (PyInt 0) (PyInt 0) sep = Inr ?r"
    by (simp add: Repeat_init_def assert_type_def check_range_def Let_def)
  moreover have "attempts (Repeat_call (Suc fuel) ?r s) = []
            \<and> (\<exists>e. finish (Repeat_call (Suc fuel) ?r s) = Raised e)" for fuel s
    using depth_first_zero_zero [of ?r fuel s] by (simp add: Repeat_call_def)
  ultimately show ?thesis by blast
qed

lemma with_depth_for_zero:
  "stop r = Some 0 \<Longrightarrow> with_depth_for r 1 acc items = ([], [])"
  by (induction items) (auto simp: le_stop_def lt_stop_def Let_def)

lemma with_depth_zero_zero:
  assumes "start r = 0" "stop r = Some 0"
  shows "with_depth (Suc fuel) r s = ([(0, [], s)], finish (first r s))"
  using assms
  by (simp add: with_depth_def matcher_for_def with_depth_for_zero Let_def)

text \<open>
  The other two directions do yield \<open>([], s)\<close>: breadth first always, and then end as
  the child ends; exhaustive when the child, which is still run, stops normally.
\<close>

lemma Repeat_zero_zero_breadth_first:
  assumes "start r = 0" "stop r = Some 0" "direction r = 1"
  shows "iterate (Repeat_call (Suc fuel) r s) = ([([], s)], finish (first r s))"
  using assms
  by (simp add: Repeat_call_def breadth_first_def with_depth_zero_zero finish_not_Matchers
      prod_eq_iff)

lemma Repeat_zero_zero_exhaustive:
  assumes "start r = 0" "stop r = Some 0" "direction r = - 1"
  shows "iterate (Repeat_call (Suc fuel) r s)
    = (if finish (first r s) = Exhausted then ([([], s)], Exhausted) else ([], finish (first r s)))"
  using assms
  by (simp add: Repeat_call_def exhaustive_def with_depth_zero_zero collect_all_def
      finish_not_Matchers prod_eq_iff)

text \<open>
  C2 at its failing input: \<^verbatim>\<open>Repeat(Any(), 0, 0, 0)\<close> on the stream \<^verbatim>\<open>'a'\<close> yields no
  attempt and raises \<^verbatim>\<open>UnboundLocalError\<close>: \<^verbatim>\<open>count2\<close> is read in the test that guards
  the \<^verbatim>\<open>yield\<close> of \<^verbatim>\<open>__depth_first\<close> and was never assigned, since
  \<^verbatim>\<open>count1 < self._stop\<close> is false.
\<close>

theorem Repeat_zero_zero_depth_first_raises:
  "(case Repeat 5 (M (Any None)) (PyInt 0) (PyInt 0) (PyInt 0) None of
      Inl e \<Rightarrow> Generator ([], Raised e)
    | Inr m \<Rightarrow> m \<lparr>tokens = ''a'', core = None\<rparr>) = Generator ([], Raised UnboundLocalError)"
  by code_simp

subsection \<open>The counts of successive attempts of Repeat\<close>

lemma with_depth_for_depth:
  "t \<in> set (fst (with_depth_for r c acc items)) \<or> t \<in> set (snd (with_depth_for r c acc items))
   \<Longrightarrow> fst t = c"
  by (induction items) (auto simp: Let_def split: if_splits)

lemma sorted_constant: "\<forall>t \<in> set xs. f t = (c::int) \<Longrightarrow> sorted (map f xs)"
  by (induction xs) auto

lemma with_depth_while_sorted:
  "sorted (map fst queue) \<Longrightarrow> \<forall>t \<in> set queue. fst t \<le> fst (hd queue) + 1 \<Longrightarrow>
   sorted (map fst (fst (with_depth_while fuel r queue)))
   \<and> (\<forall>t \<in> set (fst (with_depth_while fuel r queue)). fst (hd queue) + 1 \<le> fst t)"
proof (induction fuel arbitrary: queue)
  case 0
  then show ?case by (cases queue) simp_all
next
  case (Suc fuel)
  show ?case
  proof (cases queue)
    case Nil
    then show ?thesis by simp
  next
    case (Cons q rest)
    obtain c1 acc1 s1 where q: "q = (c1, acc1, s1)" by (cases q)
    let ?child = "iterate (matcher_for r c1 s1)"
    let ?found = "with_depth_for r (c1 + 1) acc1 (fst ?child)"
    have ys: "\<forall>t \<in> set (fst ?found). fst t = c1 + 1"
      using with_depth_for_depth by blast
    have qs: "\<forall>t \<in> set (snd ?found). fst t = c1 + 1"
      using with_depth_for_depth by blast
    have sorted_ys: "sorted (map fst (fst ?found))"
      using ys by (rule sorted_constant)
    show ?thesis
    proof (cases "snd ?child = Exhausted")
      case False
      then show ?thesis using Cons q ys sorted_ys by (simp add: Let_def)
    next
      case True
      let ?queue' = "rest @ snd ?found"
      from Suc.prems Cons q have rest_sorted: "sorted (map fst rest)"
        and rest_lo: "\<forall>t \<in> set rest. c1 \<le> fst t"
        and rest_hi: "\<forall>t \<in> set rest. fst t \<le> c1 + 1"
        by auto
      have "sorted (map fst (snd ?found))"
        using qs by (rule sorted_constant)
      then have s': "sorted (map fst ?queue')"
        using rest_sorted rest_hi qs
        by (auto simp: sorted_append)
      have lo': "\<forall>t \<in> set ?queue'. c1 \<le> fst t"
        using rest_lo qs by auto
      have hi': "\<forall>t \<in> set ?queue'. fst t \<le> c1 + 1"
        using rest_hi qs by auto
      have b': "\<forall>t \<in> set ?queue'. fst t \<le> fst (hd ?queue') + 1"
      proof (cases "?queue' = []")
        case True
        then show ?thesis by simp
      next
        case False
        then have "hd ?queue' \<in> set ?queue'" by (rule hd_in_set)
        with lo' have "c1 \<le> fst (hd ?queue')" by blast
        with hi' show ?thesis by fastforce
      qed
      from Suc.IH [OF s' b']
      have ih1: "sorted (map fst (fst (with_depth_while fuel r ?queue')))"
        and ih2: "\<forall>t \<in> set (fst (with_depth_while fuel r ?queue')). fst (hd ?queue') + 1 \<le> fst t"
        by blast+
      have rec_lo: "\<forall>t \<in> set (fst (with_depth_while fuel r ?queue')). c1 + 1 \<le> fst t"
      proof (cases "?queue' = []")
        case True
        then show ?thesis by simp
      next
        case False
        then have "hd ?queue' \<in> set ?queue'" by (rule hd_in_set)
        with lo' have "c1 \<le> fst (hd ?queue')" by blast
        with ih2 show ?thesis by fastforce
      qed
      have out: "fst (with_depth_while (Suc fuel) r queue)
                 = fst ?found @ fst (with_depth_while fuel r ?queue')"
        using True Cons q by (simp add: Let_def)
      show ?thesis
        unfolding out using sorted_ys ih1 ys rec_lo Cons q
        by (auto simp: sorted_append)
    qed
  qed
qed

lemma with_depth_sorted: "sorted (map fst (fst (with_depth fuel r s)))"
proof -
  have "sorted (map fst (fst (with_depth_while fuel r [(0, [], s)])))
    \<and> (\<forall>t \<in> set (fst (with_depth_while fuel r [(0, [], s)])). 1 \<le> fst t)"
    using with_depth_while_sorted [of "[(0, [], s)]" fuel r] by simp
  then show ?thesis
    by (cases "with_depth_while fuel r [(0, [], s)]") (auto simp: with_depth_def Let_def)
qed

text \<open>Breadth first: the attempts are those of \<^verbatim>\<open>__with_depth\<close>, whose counts never decrease.\<close>

lemma breadth_first_counts:
  "fst (breadth_first fuel r s) = map snd (fst (with_depth fuel r s))
   \<and> sorted (map fst (fst (with_depth fuel r s)))"
  by (simp add: breadth_first_def with_depth_sorted Let_def case_prod_beta)

lemma counted_append: "counted (xs @ ys) = counted xs @ counted ys"
  by (simp add: counted_def)

lemma counted_Cons: "counted ((d, as) # all) = map (Pair d) as @ counted all"
  by (simp add: counted_def)

lemma counted_Nil: "counted [] = []"
  by (simp add: counted_def)

lemma map_snd_counted: "map snd (counted all) = concat (map snd all)"
  by (induction all) (auto simp: counted_Cons counted_Nil comp_def)

lemma map_fst_counted_rev: "map fst (counted (rev all)) = rev (map fst (counted all))"
proof (induction all)
  case Nil
  show ?case by (simp add: counted_Nil)
next
  case (Cons x all)
  obtain d as where x: "x = (d, as)" by (cases x)
  have "map fst (map (Pair d) as) = replicate (length as) d"
    by (induction as) simp_all
  then show ?case
    using Cons by (simp add: x counted_append counted_Cons counted_Nil)
qed

lemma sorted_counted:
  "sorted_wrt (<) (map fst all) \<Longrightarrow> sorted (map fst (counted all))"
proof (induction all)
  case Nil
  show ?case by (simp add: counted_Nil)
next
  case (Cons x all)
  obtain d as where x: "x = (d, as)" by (cases x)
  have keys: "k \<in> fst ` set (counted all) \<Longrightarrow> k \<in> fst ` set all" for k
    by (force simp: counted_def)
  from Cons.prems x have "\<forall>k \<in> fst ` set all. d < k" by auto
  with keys have "\<forall>k \<in> fst ` set (counted all). d \<le> k" by fastforce
  moreover have "sorted (map fst (map (Pair d) as))"
    by (rule sorted_constant [of _ _ d]) auto
  moreover from Cons have "sorted (map fst (counted all))" by simp
  ultimately show ?case
    by (auto simp: x counted_Cons sorted_append)
qed

lemma all_append_counted:
  "set (counted (all_append all d a)) = insert (d, a) (set (counted all))"
  by (induction all d a rule: all_append.induct) (auto simp: counted_Cons counted_Nil)

lemma all_append_keys:
  "map fst (all_append all d a)
     = (if d \<in> fst ` set all then map fst all else map fst all @ [d])"
  by (induction all d a rule: all_append.induct) auto

lemma foldl_all_append_counted:
  "set (counted (foldl all_step all found)) = set (counted all) \<union> set found"
proof (induction found arbitrary: all)
  case Nil
  show ?case by simp
next
  case (Cons t found)
  obtain d rs s where t: "t = (d, rs, s)" by (cases t)
  have "set (counted (foldl all_step all (t # found)))
        = set (counted (foldl all_step (all_append all d (rs, s)) found))"
    by (simp add: t)
  also have "\<dots> = set (counted (all_append all d (rs, s))) \<union> set found"
    by (rule Cons.IH)
  finally show ?case by (simp add: all_append_counted t)
qed

lemma foldl_all_append_keys:
  "sorted (map fst found) \<Longrightarrow> sorted_wrt (<) (map fst all) \<Longrightarrow>
   \<forall>k \<in> fst ` set all. \<forall>t \<in> set found. k \<le> fst t \<Longrightarrow>
   sorted_wrt (<) (map fst (foldl all_step all found))"
proof (induction found arbitrary: all)
  case Nil
  then show ?case by simp
next
  case (Cons t found)
  obtain d rs s where t: "t = (d, rs, s)" by (cases t)
  let ?all = "all_append all d (rs, s)"
  from Cons.prems(1) t have found: "sorted (map fst found)" and d: "\<forall>u \<in> set found. d \<le> fst u"
    by auto
  from Cons.prems(3) t have below: "\<forall>k \<in> fst ` set all. k \<le> d" by auto
  have keys: "sorted_wrt (<) (map fst ?all)"
  proof (cases "d \<in> fst ` set all")
    case True
    with Cons.prems(2) show ?thesis by (simp add: all_append_keys)
  next
    case False
    with below have "\<forall>k \<in> fst ` set all. k < d" by force
    with Cons.prems(2) False show ?thesis
      by (auto simp: all_append_keys sorted_wrt_append)
  qed
  have "fst ` set ?all \<subseteq> insert d (fst ` set all)"
    using all_append_keys [of all d "(rs, s)"]
    by (metis (no_types, lifting) Un_insert_right append_Nil2 list.set_map list.simps(15)
        set_append subset_insertI subset_refl)
  with Cons.prems(3) d have bound: "\<forall>k \<in> fst ` set ?all. \<forall>u \<in> set found. k \<le> fst u"
    by fastforce
  from Cons.IH [OF found keys bound] show ?case by (simp add: t)
qed

text \<open>
  Exhaustive: the attempts are attempts of \<^verbatim>\<open>__with_depth\<close>, and taken with the counts
  they were found at, the counts never increase.
\<close>

lemma exhaustive_counts:
  "\<exists>cs. fst (exhaustive fuel r s) = map snd cs
      \<and> set cs \<subseteq> set (fst (with_depth fuel r s))
      \<and> sorted (rev (map fst cs))"
proof (cases "snd (with_depth fuel r s) = Exhausted")
  case False
  then have "fst (exhaustive fuel r s) = map snd []" by (simp add: exhaustive_def Let_def)
  then show ?thesis by (intro exI [of _ "[]"]) simp
next
  case True
  let ?found = "fst (with_depth fuel r s)"
  let ?all = "collect_all ?found"
  let ?cs = "counted (rev ?all)"
  have keys: "sorted_wrt (<) (map fst ?all)"
    unfolding collect_all_def
    by (rule foldl_all_append_keys) (simp_all add: with_depth_sorted)
  have "fst (exhaustive fuel r s) = map snd ?cs"
    using True by (simp add: exhaustive_def Let_def map_snd_counted)
  moreover have "set ?cs = set ?found"
  proof -
    have "set ?cs = set (counted ?all)" by (auto simp: counted_def)
    also have "\<dots> = set ?found"
      using foldl_all_append_counted [of "[]" ?found] by (simp add: collect_all_def counted_Nil)
    finally show ?thesis .
  qed
  moreover have "sorted (rev (map fst ?cs))"
    using sorted_counted [OF keys] by (simp add: map_fst_counted_rev)
  ultimately show ?thesis by blast
qed

text \<open>
  C4 at its failing input: \<^verbatim>\<open>Repeat(Any(), 1, 1, 0)\<close> on the stream \<^verbatim>\<open>'ab'\<close> yields
  \<^verbatim>\<open>(['a'], 'b')\<close> and then \<^verbatim>\<open>([], 'ab')\<close>, an attempt with no occurrence at all: the
  test that guards the \<^verbatim>\<open>yield\<close> of \<^verbatim>\<open>__depth_first\<close> compares \<^verbatim>\<open>count2\<close>, one more
  than the count of the attempt it yields, with the bounds.
\<close>

theorem Repeat_one_one_depth_first_yields_zero:
  "(case Repeat 5 (M (Any None)) (PyInt 1) (PyInt 1) (PyInt 0) None of
      Inl e \<Rightarrow> Generator ([], Raised e)
    | Inr m \<Rightarrow> m \<lparr>tokens = ''ab'', core = None\<rparr>)
   = Generator ([([Str ''a''], \<lparr>tokens = ''b'', core = None\<rparr>),
                ([], \<lparr>tokens = ''ab'', core = None\<rparr>)], Exhausted)"
  by code_simp

subsection \<open>SignedEFloat\<close>

lemma getitem_slice_ok:
  "0 \<le> a \<Longrightarrow> a \<le> b \<Longrightarrow> \<exists>m. getitem fuel self [Slice (PyInt a) (PyInt b) PyNone] = Inr m"
  by (simp add: getitem_def and_then_def Repeat_def Repeat_init_def assert_type_def
      check_range_def Let_def)

lemma getitem_open_slice_ok:
  "0 \<le> a \<Longrightarrow> \<exists>m. getitem fuel self [Slice (PyInt a) PyNone PyNone, Ellipsis] = Inr m"
  by (simp add: getitem_def and_then_def Repeat_def Repeat_init_def assert_type_def
      check_range_def Let_def)

lemma UnsignedInteger_ok: "\<exists>m. UnsignedInteger fuel = Inr m"
  unfolding UnsignedInteger_def by (rule getitem_open_slice_ok) simp

lemma SignedInteger_ok: "\<exists>m. SignedInteger fuel = Inr m"
proof -
  obtain a where a: "getitem fuel (Any (Some ''+-'')) [Slice (PyInt 0) (PyInt 1) PyNone] = Inr a"
    using getitem_slice_ok [of 0 1] by auto
  obtain b where b: "UnsignedInteger fuel = Inr b"
    using UnsignedInteger_ok by blast
  show ?thesis by (simp add: SignedInteger_def a b and_then_def)
qed

lemma UnsignedFloat_ok: "\<exists>m. UnsignedFloat fuel decimal = Inr m"
proof -
  obtain a where a: "UnsignedInteger fuel = Inr a"
    using UnsignedInteger_ok by blast
  obtain b where b: "Optional fuel (M (Any (Some decimal))) = Inr b"
    unfolding Optional_def using getitem_slice_ok [of 0 1] by auto
  obtain d where d: "getitem fuel a [Slice (PyInt 0) (PyInt 1) PyNone] = Inr d"
    using getitem_slice_ok [of 0 1] by auto
  show ?thesis by (simp add: UnsignedFloat_def a b d and_then_def)
qed

lemma SignedFloat_ok: "\<exists>m. SignedFloat fuel decimal = Inr m"
proof -
  obtain a where a: "getitem fuel (Any (Some ''+-'')) [Slice (PyInt 0) (PyInt 1) PyNone] = Inr a"
    using getitem_slice_ok [of 0 1] by auto
  obtain b where b: "UnsignedFloat fuel decimal = Inr b"
    using UnsignedFloat_ok by blast
  show ?thesis by (simp add: SignedFloat_def a b and_then_def)
qed

lemma SignedEFloat_always_raises:
  "\<exists>m. SignedEFloat fuel decimal exponent = Inr m
     \<and> (\<forall>s. m s = Generator ([], Raised TypeError))"
proof -
  obtain i where i: "SignedInteger fuel = Inr i"
    using SignedInteger_ok by blast
  obtain t where t: "getitem fuel (add_op (Any (Some exponent)) (M i))
                       [Slice (PyInt 0) (PyInt 1) PyNone] = Inr t"
    using getitem_slice_ok [of 0 1] by auto
  have call: "SignedFloat_function fuel s = NotIterator" for s
    using SignedFloat_ok [of fuel "tokens s"] by (auto simp: SignedFloat_function_def)
  have "radd_op t (M (SignedFloat_function fuel)) s = Generator ([], Raised TypeError)" for s
    by (simp add: radd_op_def Add_def Apply_def And_def call)
  then show ?thesis
    by (simp add: SignedEFloat_def i t and_then_def)
qed

text \<open>
  With the function called, as the specification words it, the first attempt on
  \<^verbatim>\<open>'-1.5e3'\<close> is \<^verbatim>\<open>['-1.']\<close> with \<^verbatim>\<open>'5e3'\<close> left: the first alternative of
  \<^verbatim>\<open>UnsignedFloat\<close> takes the digits and the point.
\<close>

lemma SignedEFloat_spec_first_attempt:
  "(case SignedEFloat_spec 20 ''eE'' of
      Inl e \<Rightarrow> []
    | Inr m \<Rightarrow> take 1 (attempts (m \<lparr>tokens = ''-1.5e3'', core = None\<rparr>)))
   = [([Str ''-1.''], \<lparr>tokens = ''5e3'', core = None\<rparr>)]"
  by code_simp

text \<open>
  C3 at its failing input: \<^verbatim>\<open>SignedEFloat()\<close> on \<^verbatim>\<open>'-1.5e3'\<close> yields no attempt and
  raises \<^verbatim>\<open>TypeError\<close>, because \<^verbatim>\<open>SignedFloat\<close> is handed to \<^verbatim>\<open>And\<close> uncalled.
\<close>

theorem SignedEFloat_raises_TypeError:
  "(case SignedEFloat 20 ''.'' ''eE'' of
      Inl e \<Rightarrow> Generator ([], Raised e)
    | Inr m \<Rightarrow> m \<lparr>tokens = ''-1.5e3'', core = None\<rparr>) = Generator ([], Raised TypeError)"
  by code_simp

subsection \<open>What is left of the stream\<close>

lemma is_suffix_refl: "is_suffix s s"
  by (simp add: is_suffix_def)

lemma is_suffix_trans: "is_suffix a b \<Longrightarrow> is_suffix b c \<Longrightarrow> is_suffix a c"
  by (auto simp: is_suffix_def intro: suffix_order.trans)

lemma is_suffix_advance: "is_suffix (advance n s) s"
  by (simp add: is_suffix_def advance_def suffix_drop)

lemma keeps_Any: "keeps_suffix (Any restrict)"
  by (auto simp: keeps_suffix_def Any_def is_suffix_advance split: list.splits)

lemma keeps_Literal: "keeps_suffix (Literal_matcher text)"
  by (auto simp: keeps_suffix_def Literal_matcher_def is_suffix_advance)

lemma keeps_Empty: "keeps_suffix Empty"
  by (simp add: keeps_suffix_def Empty_def is_suffix_refl)

lemma keeps_Regexp: "keeps_suffix (Regexp pat)"
  by (auto simp: keeps_suffix_def Regexp_def Let_def is_suffix_advance split: option.splits)

lemma keeps_Lookahead: "keeps_suffix (Lookahead a negated)"
  by (auto simp: keeps_suffix_def Lookahead_def is_suffix_refl split: list.splits prod.splits if_splits)

lemma keeps_Delayed: "(case bound of None \<Rightarrow> True | Some m \<Rightarrow> keeps_suffix m) \<Longrightarrow> keeps_suffix (Delayed bound)"
  by (auto simp: keeps_suffix_def Delayed_def split: option.splits)

lemma or_loop_subset:
  "a \<in> set (fst (or_loop ms s)) \<Longrightarrow> \<exists>m \<in> set ms. a \<in> set (attempts (m s))"
  by (induction ms) (auto simp: gen_then_eq fst_for_view split: if_splits)

lemma keeps_Or:
  "\<forall>a \<in> set matchers. keeps_suffix (coerce a) \<Longrightarrow> keeps_suffix (Or matchers)"
  unfolding keeps_suffix_def Or_def
  using or_loop_subset by fastforce

lemma apply_for_streams:
  "a \<in> set (fst (apply_for t args items e)) \<Longrightarrow> snd a \<in> snd ` set items"
  by (induction items) (auto simp: yield_eq split: sum.splits if_splits)

lemma keeps_Apply: "keeps_suffix (coerce a) \<Longrightarrow> keeps_suffix (Apply a t args)"
  unfolding keeps_suffix_def Apply_def
  using apply_for_streams by (fastforce simp: Let_def)

lemma kapply_for_streams:
  "a \<in> set (fst (kapply_for (KFunction f) s c items e)) \<Longrightarrow> snd a \<in> snd ` set items"
  by (induction items) (auto simp: yield_eq split: sum.splits if_splits)

lemma keeps_KApply: "keeps_suffix (coerce a) \<Longrightarrow> keeps_suffix (KApply a (KFunction f))"
  unfolding keeps_suffix_def KApply_def
  using kapply_for_streams by (fastforce simp: Let_def)


lemma and_loop_suffix:
  "\<forall>fr \<in> set stack. (\<forall>a \<in> set (fst (fst (snd fr))). is_suffix (snd a) s0)
       \<and> (\<forall>m \<in> set (snd (snd fr)). keeps_suffix m) \<Longrightarrow>
   a \<in> set (fst (and_loop stack)) \<Longrightarrow> is_suffix (snd a) s0"
proof (induction stack rule: and_loop.induct)
  case 1
  then show ?case by simp
next
  case (2 result e matchers stack)
  then show ?case by (auto split: if_splits)
next
  case (3 result "value" stream items e stack)
  then show ?case by (auto simp: yield_eq)
next
  case (4 result "value" stream items e m ms stack)
  from "4.prems"(1) have here: "is_suffix stream s0" and m: "keeps_suffix m"
    by auto
  have "\<forall>a \<in> set (fst (pull (m stream))). is_suffix (snd a) s0"
    using m here unfolding keeps_suffix_def fst_pull by (blast intro: is_suffix_trans)
  with "4.prems" show ?case
    by (intro "4.IH") auto
qed

lemma keeps_And:
  assumes "\<forall>a \<in> set matchers. keeps_suffix (coerce a)"
  shows "keeps_suffix (And matchers)"
  unfolding keeps_suffix_def
proof (intro allI ballI)
  fix s a
  assume a: "a \<in> set (attempts (And matchers s))"
  show "is_suffix (snd a) s"
  proof (cases "map coerce matchers")
    case Nil
    with a show ?thesis by (simp add: And_def)
  next
    case (Cons m ms)
    then have all: "\<forall>x \<in> set (m # ms). keeps_suffix x"
      using assms by (metis (no_types, lifting) imageE list.set_map)
    from a Cons have "a \<in> set (fst (and_loop [([], pull (m s), ms)]))"
      by (simp add: And_def)
    moreover have "\<forall>fr \<in> set [([], pull (m s), ms)].
        (\<forall>a \<in> set (fst (fst (snd fr))). is_suffix (snd a) s)
        \<and> (\<forall>m \<in> set (snd (snd fr)). keeps_suffix m)"
      using all unfolding keeps_suffix_def by (simp add: fst_pull)
    ultimately show ?thesis by (rule and_loop_suffix [rotated])
  qed
qed

lemma with_depth_for_streams:
  "t \<in> set (fst (with_depth_for r c acc items)) \<or> t \<in> set (snd (with_depth_for r c acc items))
   \<Longrightarrow> snd (snd t) \<in> snd ` set items"
  by (induction items) (auto simp: Let_def split: if_splits)

lemma keeps_matcher_for:
  "keeps_suffix (first r) \<Longrightarrow> keeps_suffix (second r) \<Longrightarrow> keeps_suffix (matcher_for r c)"
  by (simp add: matcher_for_def)

lemma with_depth_while_suffix:
  assumes "keeps_suffix (first r)" "keeps_suffix (second r)"
  shows "\<forall>q \<in> set queue. is_suffix (snd (snd q)) s0 \<Longrightarrow>
         t \<in> set (fst (with_depth_while fuel r queue)) \<Longrightarrow> is_suffix (snd (snd t)) s0"
proof (induction fuel arbitrary: queue)
  case 0
  then show ?case by (cases queue) simp_all
next
  case (Suc fuel)
  show ?case
  proof (cases queue)
    case Nil
    with Suc.prems show ?thesis by simp
  next
    case (Cons q rest)
    obtain c1 acc1 s1 where q: "q = (c1, acc1, s1)" by (cases q)
    let ?child = "iterate (matcher_for r c1 s1)"
    let ?found = "with_depth_for r (c1 + 1) acc1 (fst ?child)"
    from Suc.prems(1) Cons q have s1: "is_suffix s1 s0" by simp
    have child: "\<forall>a \<in> set (fst ?child). is_suffix (snd a) s0"
      using keeps_matcher_for [OF assms, of c1] s1
      unfolding keeps_suffix_def by (blast intro: is_suffix_trans)
    have found: "is_suffix (snd (snd u)) s0"
      if "u \<in> set (fst ?found) \<or> u \<in> set (snd ?found)" for u
      using with_depth_for_streams [OF that] child by auto
    show ?thesis
    proof (cases "snd ?child = Exhausted")
      case False
      with Suc.prems(2) Cons q found show ?thesis by (simp add: Let_def)
    next
      case True
      have queue': "\<forall>q \<in> set (rest @ snd ?found). is_suffix (snd (snd q)) s0"
        using Suc.prems(1) Cons found by auto
      from Suc.prems(2) Cons q True
      have "t \<in> set (fst ?found) \<or> t \<in> set (fst (with_depth_while fuel r (rest @ snd ?found)))"
        by (simp add: Let_def)
      then show ?thesis
        using found Suc.IH [OF queue'] by blast
    qed
  qed
qed

lemma with_depth_suffix:
  assumes "keeps_suffix (first r)" "keeps_suffix (second r)"
    and "t \<in> set (fst (with_depth fuel r s))"
  shows "is_suffix (snd (snd t)) s"
proof -
  have "t = (0, [], s) \<or> t \<in> set (fst (with_depth_while fuel r [(0, [], s)]))"
    using assms(3) by (auto simp: with_depth_def Let_def yield_eq split: if_splits)
  then show ?thesis
    using with_depth_while_suffix [OF assms(1,2), of "[(0, [], s)]" s t fuel]
    by (auto simp: is_suffix_refl)
qed

lemma collect_all_attempts:
  "set (concat (map snd (rev (collect_all found)))) = snd ` set found"
proof -
  have "set (concat (map snd (rev (collect_all found))))
        = snd ` set (counted (rev (collect_all found)))"
    by (simp only: map_snd_counted [symmetric] set_map)
  also have "set (counted (rev (collect_all found))) = set (counted (collect_all found))"
    by (auto simp: counted_def)
  also have "\<dots> = set found"
    using foldl_all_append_counted [of "[]" found] by (simp add: collect_all_def counted_Nil)
  finally show ?thesis .
qed

lemma breadth_first_subset:
  "set (fst (breadth_first fuel r s)) \<subseteq> snd ` set (fst (with_depth fuel r s))"
  by (auto simp: breadth_first_def Let_def case_prod_beta)

lemma exhaustive_subset:
  "set (fst (exhaustive fuel r s)) \<subseteq> snd ` set (fst (with_depth fuel r s))"
proof (cases "snd (with_depth fuel r s) = Exhausted")
  case True
  then have "fst (exhaustive fuel r s)
      = concat (map snd (rev (collect_all (fst (with_depth fuel r s)))))"
    by (simp add: exhaustive_def Let_def)
  then show ?thesis
    by (simp only: collect_all_attempts)
next
  case False
  then show ?thesis by (simp add: exhaustive_def Let_def)
qed

lemma keeps_exhaustive_breadth_first:
  assumes "keeps_suffix (first r)" "keeps_suffix (second r)"
    and "a \<in> set (fst (breadth_first fuel r s)) \<or> a \<in> set (fst (exhaustive fuel r s))"
  shows "is_suffix (snd a) s"
proof -
  from assms(3) have "a \<in> snd ` set (fst (with_depth fuel r s))"
    using breadth_first_subset exhaustive_subset by blast
  then obtain t where "t \<in> set (fst (with_depth fuel r s))" and "a = snd t"
    by blast
  then show ?thesis
    using with_depth_suffix [OF assms(1,2), of t fuel s] by simp
qed

lemma py_next_Item:
  "py_next g = Item x g' \<Longrightarrow> x \<in> set (attempts g) \<and> set (attempts g') \<subseteq> set (attempts g)"
  by (erule py_next.elims) auto

lemma py_next_Failed:
  "py_next g = Failed g' \<Longrightarrow> set (attempts g') \<subseteq> set (attempts g)"
  by (erule py_next.elims) auto

lemma try_extend_Extended:
  assumes "try_extend r count2 (c1, acc1, s1, g) = Extended c2 fr g'"
  shows "\<exists>v s2. (v, s2) \<in> set (attempts g)
           \<and> fr = (c1 + 1, acc1 @ v, s2, matcher_for r (c1 + 1) s2)
           \<and> set (attempts g') \<subseteq> set (attempts g)"
  using assms py_next_Item [of g]
  by (auto simp: try_extend_def split: if_splits next_result.splits called.splits prod.splits)

lemma try_extend_NotExtended:
  assumes "try_extend r count2 (c1, acc1, s1, g) = NotExtended c g'"
  shows "set (attempts g') \<subseteq> set (attempts g)"
  using assms py_next_Item [of g] py_next_Failed [of g]
  by (auto simp: try_extend_def split: if_splits next_result.splits called.splits prod.splits)

lemma depth_first_while_suffix:
  assumes "keeps_suffix (first r)" "keeps_suffix (second r)"
  shows "\<forall>fr \<in> set stack. frame_ok s0 fr \<Longrightarrow>
         a \<in> set (fst (depth_first_while fuel r count2 stack)) \<Longrightarrow> is_suffix (snd a) s0"
proof (induction fuel arbitrary: count2 stack)
  case 0
  then show ?case by (cases stack) simp_all
next
  case (Suc fuel)
  show ?case
  proof (cases stack)
    case Nil
    with Suc.prems show ?thesis by simp
  next
    case (Cons top rest)
    obtain c1 acc1 s1 g where top: "top = (c1, acc1, s1, g)" by (cases top)
    from Suc.prems(1) Cons top have s1: "is_suffix s1 s0"
      and g: "\<forall>a \<in> set (attempts g). is_suffix (snd a) s0"
      and rest: "\<forall>fr \<in> set rest. frame_ok s0 fr"
      by (auto simp: frame_ok_def)
    show ?thesis
    proof (cases "try_extend r count2 (c1, acc1, s1, g)")
      case Stuck
      with Suc.prems(2) Cons top show ?thesis by simp
    next
      case (Extended c2 fr g')
      from try_extend_Extended [OF this] obtain v s2
        where v: "(v, s2) \<in> set (attempts g)"
          and fr: "fr = (c1 + 1, acc1 @ v, s2, matcher_for r (c1 + 1) s2)"
          and g': "set (attempts g') \<subseteq> set (attempts g)"
        by blast
      from v g have s2: "is_suffix s2 s0" by auto
      have "\<forall>a \<in> set (attempts (matcher_for r (c1 + 1) s2)). is_suffix (snd a) s0"
        using keeps_matcher_for [OF assms, of "c1 + 1"] s2
        unfolding keeps_suffix_def by (blast intro: is_suffix_trans)
      with s2 fr have "frame_ok s0 fr" by (simp add: frame_ok_def)
      moreover have "frame_ok s0 (c1, acc1, s1, g')"
        using s1 g g' by (auto simp: frame_ok_def)
      ultimately have ok: "\<forall>x \<in> set (fr # (c1, acc1, s1, g') # rest). frame_ok s0 x"
        using rest by simp
      from Suc.prems(2) Cons top Extended
      have "a \<in> set (fst (depth_first_while fuel r (Some c2) (fr # (c1, acc1, s1, g') # rest)))"
        by simp
      with ok show ?thesis by (rule Suc.IH)
    next
      case (NotExtended c g')
      have top': "frame_ok s0 (c1, acc1, s1, g')"
        using s1 g try_extend_NotExtended [OF NotExtended] by (auto simp: frame_ok_def)
      show ?thesis
      proof (cases c)
        case None
        with Suc.prems(2) Cons top NotExtended show ?thesis by simp
      next
        case (Some c2)
        show ?thesis
        proof (cases "c2 \<ge> start r \<and> le_stop c2 (stop r)")
          case True
          with Suc.prems(2) Cons top NotExtended Some
          have "a = (acc1, s1) \<or> a \<in> set (fst (depth_first_while fuel r (Some c2) rest))"
            by (auto simp: yield_eq)
          then show ?thesis
          proof
            assume "a = (acc1, s1)"
            with s1 show ?thesis by simp
          next
            assume "a \<in> set (fst (depth_first_while fuel r (Some c2) rest))"
            with rest show ?thesis by (rule Suc.IH)
          qed
        next
          case False
          with Suc.prems(2) Cons top NotExtended Some
          have "a \<in> set (fst (depth_first_while fuel r (Some c2) ((c1, acc1, s1, g') # rest)))"
            by auto
          moreover have "\<forall>x \<in> set ((c1, acc1, s1, g') # rest). frame_ok s0 x"
            using top' rest by simp
          ultimately show ?thesis by (rule Suc.IH [rotated])
        qed
      qed
    qed
  qed
qed

lemma keeps_depth_first:
  assumes "keeps_suffix (first r)" "keeps_suffix (second r)"
    and "a \<in> set (fst (depth_first fuel r s))"
  shows "is_suffix (snd a) s"
proof (cases "matcher_for r 0 s")
  case (CallRaised e)
  with assms(3) show ?thesis by (simp add: depth_first_def)
next
  case (Generator gen)
  have "frame_ok s (0, [], s, matcher_for r 0 s)"
    using keeps_matcher_for [OF assms(1,2), of 0]
    by (simp add: frame_ok_def keeps_suffix_def is_suffix_refl)
  then have "\<forall>fr \<in> set [(0, [], s, matcher_for r 0 s)]. frame_ok s fr" by simp
  moreover from assms(3) Generator
  have "a \<in> set (fst (depth_first_while fuel r None [(0, [], s, matcher_for r 0 s)]))"
    by (simp add: depth_first_def)
  ultimately show ?thesis by (rule depth_first_while_suffix [OF assms(1,2)])
next
  case NotIterator
  have "frame_ok s (0, [], s, matcher_for r 0 s)"
    using keeps_matcher_for [OF assms(1,2), of 0]
    by (simp add: frame_ok_def keeps_suffix_def is_suffix_refl)
  then have "\<forall>fr \<in> set [(0, [], s, matcher_for r 0 s)]. frame_ok s fr" by simp
  moreover from assms(3) NotIterator
  have "a \<in> set (fst (depth_first_while fuel r None [(0, [], s, matcher_for r 0 s)]))"
    by (simp add: depth_first_def)
  ultimately show ?thesis by (rule depth_first_while_suffix [OF assms(1,2)])
qed

lemma keeps_Repeat_call:
  assumes "keeps_suffix (first r)" "keeps_suffix (second r)"
  shows "keeps_suffix (Repeat_call fuel r)"
  unfolding keeps_suffix_def
proof (intro allI ballI)
  fix s a
  assume "a \<in> set (attempts (Repeat_call fuel r s))"
  then have "a \<in> set (fst (depth_first fuel r s))
      \<or> (a \<in> set (fst (breadth_first fuel r s)) \<or> a \<in> set (fst (exhaustive fuel r s)))"
    by (auto simp: Repeat_call_def split: if_splits)
  then show "is_suffix (snd a) s"
    using keeps_depth_first [OF assms] keeps_exhaustive_breadth_first [OF assms] by blast
qed

text \<open>A \<^verbatim>\<open>Repeat\<close> that the constructor has built is such an object.\<close>

lemma Repeat_init_repeat_of:
  assumes "Repeat_init a start_a stop_a direction_a separator = Inr r"
  shows "r = repeat_of a separator (start r) (stop r) (direction r)"
  using assms
  by (auto simp: Repeat_init_def check_range_def repeat_of_def Let_def
      split: sum.splits pyarg.splits if_splits)

lemma keeps_Commit: "keeps_suffix Commit"
  by (auto simp: keeps_suffix_def Commit_def is_suffix_refl split: sum.splits)

lemma attempts_next_view: "fst (next_view c) = attempts c"
  by (cases c) simp_all

lemma keeps_Trace: "keeps_suffix (coerce a) \<Longrightarrow> keeps_suffix (Trace a)"
  unfolding keeps_suffix_def
proof (intro allI ballI)
  fix s x
  assume keeps: "\<forall>s. \<forall>a \<in> set (attempts (coerce a s)). is_suffix (snd a) s"
    and x: "x \<in> set (attempts (Trace a s))"
  show "is_suffix (snd x) s"
  proof (cases a)
    case (S lit)
    with x show ?thesis by (simp add: Trace_def)
  next
    case (M m)
    from x M have "x \<in> set (attempts (m s))"
      by (cases "m s")
         (auto simp: Trace_def attempts_next_view split: sum.splits)
    with keeps M show ?thesis by auto
  qed
qed

lemma keeps_out_of_fuel: "keeps_suffix (\<lambda>stream. Generator ([], OutOfFuel))"
  by (simp add: keeps_suffix_def)

lemma keeps_repeat_of:
  assumes "keeps_suffix (coerce a)"
    and "case separator of None \<Rightarrow> True | Some sep \<Rightarrow> keeps_suffix (coerce sep)"
  shows "keeps_suffix (Repeat_call fuel (repeat_of a separator start_v stop_v direction_v))"
proof (rule keeps_Repeat_call)
  show "keeps_suffix (first (repeat_of a separator start_v stop_v direction_v))"
    using assms(1) by (simp add: repeat_of_def)
  show "keeps_suffix (second (repeat_of a separator start_v stop_v direction_v))"
  proof (cases separator)
    case None
    with assms(1) show ?thesis by (simp add: repeat_of_def)
  next
    case (Some sep)
    with assms have "keeps_suffix (And [sep, a])"
      by (intro keeps_And) simp
    with Some show ?thesis by (simp add: repeat_of_def)
  qed
qed

lemma keeps_matcher_of:
  "raw_free n \<Longrightarrow> \<forall>i m. store i = Some m \<longrightarrow> raw_free m \<Longrightarrow>
   keeps_suffix (matcher_of fuel store n)"
proof (induction fuel store n rule: matcher_of.induct)
  case (5 fuel store ns)
  then show ?case
    by (auto intro!: keeps_And simp: list_all_iff)
next
  case (6 fuel store ns)
  then show ?case
    by (auto intro!: keeps_Or simp: list_all_iff)
next
  case (7 fuel store n negated)
  show ?case by (simp add: keeps_Lookahead)
next
  case (8 fuel store n t args)
  then show ?case by (simp add: keeps_Apply)
next
  case (9 fuel store n f)
  then show ?case
    by (cases f) (simp_all add: keeps_KApply)
next
  case (10 fuel store n separator start_v stop_v direction_v)
  have "keeps_suffix (Repeat_call fuel
          (repeat_of (M (matcher_of fuel store n))
             (map_option (\<lambda>sep. M (matcher_of fuel store sep)) separator)
             start_v stop_v direction_v))"
  proof (rule keeps_repeat_of)
    show "keeps_suffix (coerce (M (matcher_of fuel store n)))"
      using 10 by simp
    show "case map_option (\<lambda>sep. M (matcher_of fuel store sep)) separator of
            None \<Rightarrow> True | Some sep \<Rightarrow> keeps_suffix (coerce sep)"
      using 10 by (cases separator) simp_all
  qed
  then show ?case by simp
next
  case (11 store i)
  show ?case
    by (cases "store i") (simp_all add: keeps_Delayed keeps_out_of_fuel)
next
  case (12 fuel store i)
  show ?case
  proof (cases "store i")
    case None
    then show ?thesis by (simp add: keeps_Delayed)
  next
    case (Some n)
    with 12 have "keeps_suffix (matcher_of fuel store n)" by blast
    with Some show ?thesis by (simp add: keeps_Delayed)
  qed
next
  case (14 fuel store n)
  then show ?case by (simp add: keeps_Trace)
qed (simp_all add: keeps_Any keeps_Literal keeps_Empty keeps_Regexp keeps_Commit)

text \<open>
  C8, as amended. For every matcher built from the classes of the library, that is
  \<^verbatim>\<open>Any\<close>, \<^verbatim>\<open>Literal\<close>, \<^verbatim>\<open>Empty\<close>, \<^verbatim>\<open>Regexp\<close>, \<^verbatim>\<open>And\<close>, \<^verbatim>\<open>Or\<close>, \<^verbatim>\<open>Lookahead\<close>,
  \<^verbatim>\<open>Apply\<close>, \<^verbatim>\<open>KApply\<close>, \<^verbatim>\<open>Repeat\<close> in any direction, \<^verbatim>\<open>Commit\<close>, \<^verbatim>\<open>Trace\<close> and
  \<^verbatim>\<open>Delayed\<close>, recursive grammars tied through \<^verbatim>\<open>Delayed\<close> included, but without
  \<^verbatim>\<open>KApply\<close> with \<^verbatim>\<open>raw=True\<close>, and for every stream \<open>s\<close>, every attempt yielded on
  \<open>s\<close> leaves a suffix of \<open>s\<close>, so what is left is never longer than \<open>s\<close>. This
  holds for the attempts yielded with any amount of fuel, and for those yielded before
  an exception.
\<close>

theorem built_matcher_suffix:
  "raw_free n \<Longrightarrow> \<forall>i m. store i = Some m \<longrightarrow> raw_free m \<Longrightarrow>
   a \<in> set (attempts (matcher_of fuel store n s)) \<Longrightarrow>
   is_suffix (snd a) s \<and> length (tokens (snd a)) \<le> length (tokens s)"
proof -
  assume "raw_free n" and "\<forall>i m. store i = Some m \<longrightarrow> raw_free m"
  then have "keeps_suffix (matcher_of fuel store n)"
    by (rule keeps_matcher_of)
  moreover assume "a \<in> set (attempts (matcher_of fuel store n s))"
  ultimately have "is_suffix (snd a) s"
    unfolding keeps_suffix_def by blast
  then show ?thesis
    by (auto simp: is_suffix_def suffix_length_le)
qed

text \<open>
  The witness is the recursive grammar \<^verbatim>\<open>E += (Any() & E) | Empty()\<close> on \<^verbatim>\<open>'ab'\<close>.
\<close>

theorem built_matcher_suffix_witness:
  "([Str ''a'', Str ''b''], \<lparr>tokens = [], core = None\<rparr>)
     \<in> set (attempts (matcher_of 3
                (\<lambda>i. if i = 0 then Some (OrN [AndN [AnyN None, DelayedN 0], EmptyN]) else None)
                (DelayedN 0) \<lparr>tokens = ''ab'', core = None\<rparr>))
   \<and> is_suffix \<lparr>tokens = [], core = None\<rparr> \<lparr>tokens = ''ab'', core = None\<rparr>
   \<and> length ([] :: string) \<le> length ''ab''"
proof -
  let ?store = "\<lambda>i::nat. if i = 0 then Some (OrN [AndN [AnyN None, DelayedN 0], EmptyN]) else None"
  let ?s = "\<lparr>tokens = ''ab'', core = None\<rparr>"
  let ?a = "([Str ''a'', Str ''b''], \<lparr>tokens = [], core = None\<rparr>)"
  have n: "raw_free (DelayedN 0)" by simp
  have st: "\<forall>i m. ?store i = Some m \<longrightarrow> raw_free m" by simp
  have a: "?a \<in> set (attempts (matcher_of 3 ?store (DelayedN 0) ?s))"
    by code_simp
  from built_matcher_suffix [OF n st a] a show ?thesis
    by simp
qed

text \<open>
  C8 as stated fails for \<^verbatim>\<open>KApply\<close> with \<^verbatim>\<open>raw=True\<close>, whose function returns the whole
  attempt: on the empty stream, \<^verbatim>\<open>KApply(Empty(), f, raw=True)\<close> with an \<open>f\<close> that returns
  \<^verbatim>\<open>([], 'x')\<close> yields the stream \<^verbatim>\<open>'x'\<close>, which is longer than the empty stream and no
  suffix of it.
\<close>

theorem KApply_raw_counterexample:
  "([], \<lparr>tokens = ''x'', core = None\<rparr>)
     \<in> set (attempts (KApply (M Empty) (KRaw fresh_stream) \<lparr>tokens = [], core = None\<rparr>))
   \<and> \<not> is_suffix \<lparr>tokens = ''x'', core = None\<rparr> \<lparr>tokens = [], core = None\<rparr>
   \<and> \<not> length ''x'' \<le> length ([] :: string)"
  by (simp add: KApply_def Empty_def fresh_stream_def getattr_core_def is_suffix_def)

end
